theory Spec2Isabelle
  imports Main "HOL-Library.Sublist"
begin

section \<open>Python strings and built-ins used by the agent\<close>

text \<open>
  A Python \<open>str\<close> is a sequence of code points. The model uses \<open>string\<close> and reads a
  \<open>char\<close> as the code point of the same number, so it covers every text whose code points
  are below 256 (ASCII and Latin-1); \<open>len\<close> is \<open>length\<close>.
\<close>

datatype py_error =
    RuntimeError | ValueError | FileNotFoundError | IndexError | AttributeError | NameError
  | ExternalError string

text \<open>\<open>c.isspace()\<close> for the code points below 256: tab, LF, VT, FF, CR, the four
  separators 0x1C..0x1F, space, NEL (0x85) and the no-break space (0xA0).\<close>

definition isspace :: "char \<Rightarrow> bool" where
  "isspace c = ((of_char c :: nat) \<in> {9, 10, 11, 12, 13, 28, 29, 30, 31, 32, 133, 160})"

text \<open>\<open>c.lower()\<close> for the code points below 256: the ASCII capitals and the Latin-1
  capitals 0xC0..0xDE (0xD7, the multiplication sign, is no letter) move up by 32.\<close>

definition lower_char :: "char \<Rightarrow> char" where
  "lower_char c =
     (let n = (of_char c :: nat)
      in if (65 \<le> n \<and> n \<le> 90) \<or> (192 \<le> n \<and> n \<le> 222 \<and> n \<noteq> 215)
         then char_of (n + 32) else c)"

definition lower :: "string \<Rightarrow> string" where
  "lower s = map lower_char s"

text \<open>\<open>s.strip()\<close>: leading and trailing whitespace removed.\<close>

definition strip :: "string \<Rightarrow> string" where
  "strip s = rev (dropWhile isspace (rev (dropWhile isspace s)))"

text \<open>\<open>s.split()\<close>: the maximal runs of non-whitespace characters, in order. \<open>cur\<close> is the
  token being read.\<close>

fun split_from :: "string \<Rightarrow> string \<Rightarrow> string list" where
  "split_from cur [] = (if cur = [] then [] else [cur])"
| "split_from cur (c # cs) =
     (if isspace c then (if cur = [] then split_from [] cs else cur # split_from [] cs)
      else split_from (cur @ [c]) cs)"

definition split :: "string \<Rightarrow> string list" where
  "split s = split_from [] s"

text \<open>\<open>xs[i:j]\<close> with Python's rules: a negative bound counts from the end, both bounds are
  clamped to the sequence, and an empty range gives the empty sequence.\<close>

definition py_slice :: "'a list \<Rightarrow> int \<Rightarrow> int \<Rightarrow> 'a list" where
  "py_slice xs i j =
     (let n = int (length xs);
          a = (if i < 0 then max 0 (n + i) else min i n);
          b = (if j < 0 then max 0 (n + j) else min j n)
      in take (nat (b - a)) (drop (nat a) xs))"

text \<open>\<open>xs[i]\<close>: a negative index counts from the end; out of range raises IndexError.\<close>

definition py_index :: "'a list \<Rightarrow> int \<Rightarrow> py_error + 'a" where
  "py_index xs i =
     (if 0 \<le> i \<and> i < int (length xs) then Inr (xs ! nat i)
      else if i < 0 \<and> - int (length xs) \<le> i then Inr (xs ! nat (int (length xs) + i))
      else Inl IndexError)"

text \<open>\<open>p in s\<close> on strings: \<open>p\<close> occurs in \<open>s\<close> as a contiguous run.\<close>

definition str_contains :: "string \<Rightarrow> string \<Rightarrow> bool" where
  "str_contains s p = sublist p s"

text \<open>\<open>sep.join(parts)\<close>.\<close>

fun join :: "string \<Rightarrow> string list \<Rightarrow> string" where
  "join sep [] = []"
| "join sep [p] = p"
| "join sep (p # q # ps) = p @ sep @ join sep (q # ps)"

text \<open>\<open>str(n)\<close> for an integer: decimal digits, no padding, a minus sign when negative.\<close>

definition digit_char :: "nat \<Rightarrow> char" where
  "digit_char d = char_of (48 + d)"

fun str_nat :: "nat \<Rightarrow> string" where
  "str_nat n = (if n < 10 then [digit_char n] else str_nat (n div 10) @ [digit_char (n mod 10)])"

declare str_nat.simps [simp del]

definition str_int :: "int \<Rightarrow> string" where
  "str_int i = (if i < 0 then CHR ''-'' # str_nat (nat (- i)) else str_nat (nat i))"

section \<open>ingest.py: chunks and the chunker\<close>

record PDFChunk =
  ctext :: string
  page_number :: int
  chunk_id :: int

text \<open>\<open>PDFChunk.get_citation\<close>: \<open>f"[p{self.page_number}:c{self.chunk_id}]"\<close>.\<close>

definition get_citation :: "PDFChunk \<Rightarrow> string" where
  "get_citation c = ''[p'' @ str_int (page_number c) @ '':c'' @ str_int (chunk_id c) @ '']''"

record PDFIngestor =
  chunk_size :: int
  chunk_overlap :: int

text \<open>\<open>PDFIngestor.__init__\<close> stores both parameters and has no \<open>raise\<close>: it returns the
  object for every pair of integers.\<close>

definition PDFIngestor_init :: "int \<Rightarrow> int \<Rightarrow> py_error + PDFIngestor" where
  "PDFIngestor_init cs co = Inr \<lparr>chunk_size = cs, chunk_overlap = co\<rparr>"

text \<open>The \<open>while start < len(text)\<close> loop of \<open>chunk_text\<close>, with its three variables
  \<open>start\<close>, \<open>chunk_id\<close> and \<open>chunks\<close>. The loop need not end, so the result is an option:
  \<open>None\<close> is a loop that runs forever.\<close>

partial_function (option) chunk_loop ::
  "PDFIngestor \<Rightarrow> string \<Rightarrow> int \<Rightarrow> int \<Rightarrow> int \<Rightarrow> PDFChunk list \<Rightarrow> PDFChunk list option"
where
  "chunk_loop self txt page start cid chunks =
     (if start < int (length txt) then
        (if strip (py_slice txt start (start + chunk_size self)) \<noteq> [] then
           chunk_loop self txt page (start + (chunk_size self - chunk_overlap self)) (cid + 1)
             (chunks @ [\<lparr>ctext = strip (py_slice txt start (start + chunk_size self)),
                         page_number = page, chunk_id = cid\<rparr>])
         else
           chunk_loop self txt page (start + (chunk_size self - chunk_overlap self)) cid chunks)
      else Some chunks)"

declare chunk_loop.simps [code]

definition chunk_text :: "PDFIngestor \<Rightarrow> string \<Rightarrow> int \<Rightarrow> int \<Rightarrow> PDFChunk list option" where
  "chunk_text self txt page start_chunk_id = chunk_loop self txt page 0 start_chunk_id []"

text \<open>\<open>extract_text_from_pdf\<close>: the file system and the PDF reader are the parameter \<open>fs\<close>,
  which gives for a path the \<open>extract_text()\<close> of each page (\<open>None\<close> when the file does not
  exist). Pages are numbered from 1; a page whose text is empty or only whitespace is
  dropped.\<close>

definition extract_text_from_pdf ::
  "(string \<Rightarrow> string list option) \<Rightarrow> string \<Rightarrow> py_error + (int \<times> string) list" where
  "extract_text_from_pdf fs pdf_path =
     (case fs pdf_path of
        None \<Rightarrow> Inl FileNotFoundError
      | Some raw \<Rightarrow>
          Inr (filter (\<lambda>(page_num, t). t \<noteq> [] \<and> strip t \<noteq> [])
                 (zip (map (\<lambda>i. int i + 1) [0..<length raw]) raw)))"

text \<open>The \<open>for page_data in pages\<close> loop of \<open>ingest_pdf\<close>, with \<open>chunk_id\<close> and
  \<open>all_chunks\<close>.\<close>

fun ingest_loop ::
  "PDFIngestor \<Rightarrow> (int \<times> string) list \<Rightarrow> int \<Rightarrow> PDFChunk list \<Rightarrow> PDFChunk list option" where
  "ingest_loop self [] cid all_chunks = Some all_chunks"
| "ingest_loop self ((page_num, t) # pages) cid all_chunks =
     (case chunk_text self t page_num cid of
        None \<Rightarrow> None
      | Some page_chunks \<Rightarrow>
          ingest_loop self pages (cid + int (length page_chunks)) (all_chunks @ page_chunks))"

definition ingest_pdf ::
  "PDFIngestor \<Rightarrow> (string \<Rightarrow> string list option) \<Rightarrow> string \<Rightarrow> (py_error + PDFChunk list) option" where
  "ingest_pdf self fs pdf_path =
     (case extract_text_from_pdf fs pdf_path of
        Inl e \<Rightarrow> Some (Inl e)
      | Inr pages \<Rightarrow> map_option Inr (ingest_loop self pages 0 []))"

section \<open>prompt.py: prompts, citation extraction, refusal detection\<close>

definition SYSTEM_INSTRUCTION :: string where
  \<open>SYSTEM_INSTRUCTION =
    ''You are a STRICTLY GROUNDED document assistant. You MUST answer ONLY from the retrieved document chunks provided below.\<newline>'' @
    ''\<newline>'' @
    ''ABSOLUTE RULES (NO EXCEPTIONS):\<newline>'' @
    ''1. Answer ONLY using information EXPLICITLY present in the retrieved chunks\<newline>'' @
    ''2. NEVER use your general knowledge, training data, or outside information\<newline>'' @
    ''3. Do NOT infer, estimate, calculate, or assume ANY information\<newline>'' @
    ''4. If the answer is NOT explicitly in the chunks, respond EXACTLY: "Not found in the document."\<newline>'' @
    ''5. For numeric questions: Quote EXACT numbers as written in the document\<newline>'' @
    ''6. NEVER approximate, round, or calculate numbers\<newline>'' @
    ''7. Every factual statement MUST have a citation\<newline>'' @
    ''\<newline>'' @
    ''MANDATORY RESPONSE FORMAT:\<newline>'' @
    ''\<newline>'' @
    ''Answer:\<newline>'' @
    ''<short, direct answer using only document text>\<newline>'' @
    ''\<newline>'' @
    ''Citations:\<newline>'' @
    ''[pX:cY], [pA:cB]\<newline>'' @
    ''\<newline>'' @
    ''Evidence:\<newline>'' @
    ''[pX:cY] "<exact quote from chunk>"\<newline>'' @
    ''[pA:cB] "<exact quote from chunk>"\<newline>'' @
    ''\<newline>'' @
    ''If information is missing, ambiguous, or requires inference:\<newline>'' @
    ''Respond EXACTLY: "Not found in the document."\<newline>'' @
    ''\<newline>'' @
    ''Do NOT deviate from this format or these rules under ANY circumstances.''\<close>

text \<open>An f-string is a sequence of literal parts and replacement fields. A field that is a
  plain name is looked up among the names bound where the f-string is evaluated (locals,
  then module globals); a name bound nowhere raises NameError. Fields are evaluated from
  left to right.\<close>

datatype fpart = FLit string | FName string

fun fstring :: "(string \<times> string) list \<Rightarrow> fpart list \<Rightarrow> py_error + string" where
  "fstring env [] = Inr []"
| "fstring env (FLit s # ps) =
     (case fstring env ps of Inl e \<Rightarrow> Inl e | Inr r \<Rightarrow> Inr (s @ r))"
| "fstring env (FName name # ps) =
     (case map_of env name of
        None \<Rightarrow> Inl NameError
      | Some v \<Rightarrow> (case fstring env ps of Inl e \<Rightarrow> Inl e | Inr r \<Rightarrow> Inr (v @ r)))"

text \<open>The last \<open>n\<close> elements, \<open>xs[-n:]\<close> for \<open>n > 0\<close>.\<close>

definition last_n :: "nat \<Rightarrow> 'a list \<Rightarrow> 'a list" where
  "last_n n xs = drop (length xs - n) xs"

text \<open>\<open>history_parts\<close> of both prompt builders: \<open>User: ...\<close> and \<open>Assistant: ...\<close> for each
  turn.\<close>

fun history_parts :: "(string \<times> string) list \<Rightarrow> string list" where
  "history_parts [] = []"
| "history_parts ((user_msg, assistant_msg) # turns) =
     (''User: '' @ user_msg) # (''Assistant: '' @ assistant_msg) # history_parts turns"

text \<open>\<open>context_parts\<close> of \<open>build_grounded_prompt\<close>; \<open>i\<close> is the rank from
  \<open>enumerate(retrieved_chunks, 1)\<close>.\<close>

fun context_parts :: "nat \<Rightarrow> (PDFChunk \<times> 's) list \<Rightarrow> string list" where
  "context_parts i [] = []"
| "context_parts i ((chunk, score) # rest) =
     (''[CHUNK '' @ str_nat i @ ''] '' @ get_citation chunk @ ''\<newline>'' @
      ''Page '' @ str_int (page_number chunk) @ ''\<newline>'' @
      ''Text: '' @ ctext chunk @ ''\<newline>'') # context_parts (Suc i) rest"

text \<open>The parts of the f-string assigned to \<open>prompt\<close> in \<open>build_grounded_prompt\<close>. The line
  about the citation format is written \<open>[p{page}:c{chunk_id}]\<close> inside the f-string, so
  \<open>page\<close> and \<open>chunk_id\<close> are replacement fields.\<close>

definition grounded_prompt_parts :: "fpart list" where
  \<open>grounded_prompt_parts =
    [FLit ''RETRIEVED DOCUMENT CHUNKS:\<newline>'',
     FName ''context'',
     FLit ''\<newline>\<newline>'',
     FName ''history_text'',
     FLit (''\<newline>\<newline>'' @
          ''CURRENT USER QUESTION:\<newline>''),
     FName ''query'',
     FLit (''\<newline>\<newline>'' @
          ''INSTRUCTIONS:\<newline>'' @
          ''Answer the question using ONLY the information in the retrieved chunks above. \<newline>'' @
          ''\<newline>'' @
          ''If the answer is not explicitly in the chunks, respond with EXACTLY:\<newline>'' @
          ''"Not found in the document."\<newline>'' @
          ''\<newline>'' @
          ''If you can answer:\<newline>'' @
          ''1. Provide a clear, concise answer\<newline>'' @
          ''2. Include citations using [p''),
     FName ''page'',
     FLit '':c'',
     FName ''chunk_id'',
     FLit (''] format\<newline>'' @
          ''3. Include an "Evidence" section with relevant quotes\<newline>'' @
          ''\<newline>'' @
          ''Your response:'')]\<close>

text \<open>\<open>build_grounded_prompt\<close>. The names bound when the f-string is evaluated are the
  parameters and the locals assigned before it; the module binds no \<open>page\<close> and no
  \<open>chunk_id\<close>. (The loop variables are bound only when their loops ran; they are not
  fields of the f-string.)\<close>

definition build_grounded_prompt ::
  "string \<Rightarrow> (PDFChunk \<times> 's) list \<Rightarrow> (string \<times> string) list \<Rightarrow> py_error + string" where
  "build_grounded_prompt query retrieved_chunks history =
     (let context = join ''\<newline>---\<newline>'' (context_parts 1 retrieved_chunks);
          history_text =
            (if history \<noteq> [] then
               ''\<newline>\<newline>PREVIOUS CONVERSATION:\<newline>'' @
               join ''\<newline>'' (history_parts (last_n 3 history))
             else [])
      in fstring [(''query'', query), (''context'', context), (''history_text'', history_text)]
           grounded_prompt_parts)"

text \<open>\<open>rewrite_query_with_history\<close>; every field of its f-string is a local.\<close>

definition rewrite_query_with_history :: "string \<Rightarrow> (string \<times> string) list \<Rightarrow> string" where
  \<open>rewrite_query_with_history query history =
     (if history = [] then query
      else
        ''Given the conversation history below, rewrite the follow-up question to be a standalone question that captures the full context.\<newline>'' @
        ''\<newline>'' @
        ''CONVERSATION HISTORY:\<newline>'' @
        join ''\<newline>'' (history_parts (last_n 2 history)) @
        ''\<newline>\<newline>'' @
        ''FOLLOW-UP QUESTION:\<newline>'' @
        query @
        ''\<newline>\<newline>'' @
        ''INSTRUCTIONS:\<newline>'' @
        ''- If the question refers to previous context (e.g., "it", "they", "that company"), incorporate that context\<newline>'' @
        ''- If the question is already standalone, return it as-is\<newline>'' @
        ''- Keep it concise and clear\<newline>'' @
        ''- ONLY rewrite for clarity - do NOT add facts or assumptions\<newline>'' @
        ''\<newline>'' @
        ''STANDALONE QUESTION:'')\<close>

text \<open>\<open>\d\<close> for the code points below 256: the ten ASCII digits.\<close>

definition isdigit :: "char \<Rightarrow> bool" where
  "isdigit c = (48 \<le> (of_char c :: nat) \<and> (of_char c :: nat) \<le> 57)"

text \<open>One attempt to match the pattern \<open>\[p(\d+):c(\d+)\]\<close> at the start of \<open>s\<close>: the two
  groups and the length of the match. \<open>\d+\<close> is greedy, and giving digits back cannot help,
  since the character that must follow is no digit.\<close>

definition match_citation :: "string \<Rightarrow> ((string \<times> string) \<times> nat) option" where
  "match_citation s =
     (case s of
        a # b # r1 \<Rightarrow>
          if a = CHR ''['' \<and> b = CHR ''p'' \<and> takeWhile isdigit r1 \<noteq> [] then
            (case dropWhile isdigit r1 of
               c # d # r2 \<Rightarrow>
                 if c = CHR '':'' \<and> d = CHR ''c'' \<and> takeWhile isdigit r2 \<noteq> [] then
                   (case dropWhile isdigit r2 of
                      e # r3 \<Rightarrow>
                        if e = CHR '']'' then
                          Some ((takeWhile isdigit r1, takeWhile isdigit r2),
                                length (takeWhile isdigit r1) + length (takeWhile isdigit r2) + 5)
                        else None
                    | [] \<Rightarrow> None)
                 else None
             | _ \<Rightarrow> None)
          else None
      | _ \<Rightarrow> None)"

text \<open>\<open>re.findall(pattern, response)\<close>: the groups of the matches found scanning from the
  left, without overlap. \<open>skip\<close> counts the characters of the last match still to pass.\<close>

fun findall_citations :: "nat \<Rightarrow> string \<Rightarrow> (string \<times> string) list" where
  "findall_citations skip [] = []"
| "findall_citations (Suc skip) (c # cs) = findall_citations skip cs"
| "findall_citations 0 (c # cs) =
     (case match_citation (c # cs) of
        Some (groups, len) \<Rightarrow> groups # findall_citations (len - 1) cs
      | None \<Rightarrow> findall_citations 0 cs)"

definition parse_response_for_citations :: "string \<Rightarrow> string list" where
  "parse_response_for_citations response =
     map (\<lambda>(page, chunk). ''p'' @ page @ '':c'' @ chunk) (findall_citations 0 response)"

definition not_found_phrases :: "string list" where
  "not_found_phrases =
     [''not found in the document'', ''not mentioned in the document'',
      ''does not contain'', ''information is not available'']"

definition is_not_found_response :: "string \<Rightarrow> bool" where
  "is_not_found_response response =
     (let response_lower = strip (lower response)
      in \<exists>phrase\<in>set not_found_phrases. str_contains response_lower phrase)"

section \<open>validate.py: the format check\<close>

record format_results =
  has_answer_section :: bool
  has_citations_section :: bool
  has_evidence_section :: bool
  is_not_found :: bool
  valid :: bool

definition validate_response_format :: "string \<Rightarrow> format_results" where
  "validate_response_format response =
     (let results = \<lparr>has_answer_section = str_contains response ''Answer:'',
                     has_citations_section = str_contains response ''Citations:'',
                     has_evidence_section = str_contains response ''Evidence:'',
                     is_not_found = str_contains response ''Not found in the document'',
                     valid = False\<rparr>
      in if is_not_found results then results\<lparr>valid := True\<rparr>
         else if has_answer_section results \<and> has_citations_section results
                   \<and> has_evidence_section results
              then results\<lparr>valid := True\<rparr>
         else results)"

section \<open>retriever.py: the vector retriever\<close>

text \<open>
  \<open>VectorRetriever\<close>. The embedding model and the FAISS index are libraries; \<open>index\<close> is
  \<open>None\<close> as long as no index was built or loaded, and otherwise the function that takes a
  query and \<open>top_k\<close> through \<open>encode\<close>, \<open>normalize_L2\<close> and \<open>index.search\<close> and gives the rows
  \<open>zip(indices[0], scores[0])\<close>, or the exception a library raised. Scores are floats; the
  model leaves their type open.\<close>

record 's VectorRetriever =
  index :: "(string \<Rightarrow> int \<Rightarrow> py_error + (int \<times> 's) list) option"
  chunks :: "PDFChunk list"

text \<open>\<open>build_index\<close>; \<open>faiss\<close> is the library: the searches of the index it builds from the
  chunks given.\<close>

definition build_index ::
  "(PDFChunk list \<Rightarrow> string \<Rightarrow> int \<Rightarrow> py_error + (int \<times> 's) list) \<Rightarrow> 's VectorRetriever
     \<Rightarrow> PDFChunk list \<Rightarrow> py_error + 's VectorRetriever" where
  "build_index faiss self cs =
     (if cs = [] then Inl ValueError
      else Inr (self\<lparr>chunks := cs, index := Some (faiss cs)\<rparr>))"

text \<open>The \<open>for idx, score in zip(indices[0], scores[0])\<close> loop of \<open>retrieve\<close>, with
  \<open>results\<close>.\<close>

fun retrieve_loop ::
  "PDFChunk list \<Rightarrow> (int \<times> 's) list \<Rightarrow> (PDFChunk \<times> 's) list \<Rightarrow> py_error + (PDFChunk \<times> 's) list" where
  "retrieve_loop cs [] results = Inr results"
| "retrieve_loop cs ((idx, score) # rows) results =
     (if idx < int (length cs) then
        (case py_index cs idx of
           Inl e \<Rightarrow> Inl e
         | Inr chunk \<Rightarrow> retrieve_loop cs rows (results @ [(chunk, score)]))
      else retrieve_loop cs rows results)"

definition retrieve ::
  "'s VectorRetriever \<Rightarrow> string \<Rightarrow> int \<Rightarrow> py_error + (PDFChunk \<times> 's) list" where
  "retrieve self query k =
     (case index self of
        None \<Rightarrow> Inl RuntimeError
      | Some search \<Rightarrow>
          (case search query k of
             Inl e \<Rightarrow> Inl e
           | Inr rows \<Rightarrow> retrieve_loop (chunks self) rows []))"

section \<open>chat.py: the conversational agent\<close>

text \<open>
  The generator (the Gemini model) is outside the program and may answer differently each
  time, so it is a function on a state of its own: \<open>generate_content(prompt)\<close> followed by
  \<open>.text\<close> gives the text or raises, and leaves a new state. The \<open>world\<close> keeps that state
  and the list of the prompts sent so far.\<close>

type_synonym 'w generator = "string \<Rightarrow> 'w \<Rightarrow> (py_error + string) \<times> 'w"

record 'w world =
  gen_state :: 'w
  gen_calls :: "string list"

record ('s, 'w) RAGChatAgent =
  retriever :: "'s VectorRetriever"
  top_k :: int
  debug_mode :: bool
  api_key :: "string option"
  fallback_mode :: bool
  model :: "'w generator option"
  conversation_history :: "(string \<times> string) list"

text \<open>\<open>RAGChatAgent.__init__\<close>. \<open>genai\<close> is the body of the \<open>try\<close>: \<open>genai.configure\<close>,
  \<open>GenerationConfig\<close> and \<open>GenerativeModel\<close>, which give the model or raise.\<close>

definition RAGChatAgent_init ::
  "(string \<Rightarrow> string \<Rightarrow> py_error + 'w generator) \<Rightarrow> 's VectorRetriever \<Rightarrow> string option
     \<Rightarrow> string \<Rightarrow> int \<Rightarrow> bool \<Rightarrow> ('s, 'w) RAGChatAgent" where
  "RAGChatAgent_init genai retr gemini_api_key model_name top_k_retrieval dbg =
     (let self = \<lparr>retriever = retr, top_k = top_k_retrieval, debug_mode = dbg,
                   api_key = gemini_api_key, fallback_mode = (gemini_api_key = None),
                   model = None, conversation_history = []\<rparr>
      in case gemini_api_key of
           None \<Rightarrow> self\<lparr>model := None\<rparr>
         | Some key \<Rightarrow>
             (case genai key model_name of
                Inr m \<Rightarrow> self\<lparr>model := Some m\<rparr>
              | Inl e \<Rightarrow> self\<lparr>fallback_mode := True, model := None\<rparr>))"

text \<open>\<open>self.model.generate_content(prompt)\<close> and \<open>.text\<close>: with \<open>self.model = None\<close> the
  attribute lookup raises and nothing is sent.\<close>

definition generate_content ::
  "'w generator option \<Rightarrow> string \<Rightarrow> 'w world \<Rightarrow> (py_error + string) \<times> 'w world" where
  "generate_content m prompt w =
     (case m of
        None \<Rightarrow> (Inl AttributeError, w)
      | Some g \<Rightarrow>
          (fst (g prompt (gen_state w)),
           \<lparr>gen_state = snd (g prompt (gen_state w)), gen_calls = gen_calls w @ [prompt]\<rparr>))"

definition pronouns :: "string list" where
  "pronouns = [''it'', ''they'', ''them'', ''this'', ''that'', ''these'', ''those'', ''he'', ''she'']"

definition needs_rewrite :: "string \<Rightarrow> bool" where
  "needs_rewrite query =
     (length (split query) < 5 \<or> (\<exists>pronoun\<in>set pronouns. pronoun \<in> set (split (lower query))))"

definition rewrite_query_if_needed ::
  "('s, 'w) RAGChatAgent \<Rightarrow> string \<Rightarrow> 'w world \<Rightarrow> string \<times> 'w world" where
  "rewrite_query_if_needed self query w =
     (if fallback_mode self \<or> conversation_history self = [] then (query, w)
      else if \<not> needs_rewrite query then (query, w)
      else
        (case generate_content (model self)
                (rewrite_query_with_history query (conversation_history self)) w of
           (Inr response_text, w') \<Rightarrow> (strip response_text, w')
         | (Inl e, w') \<Rightarrow> (query, w')))"

text \<open>The \<open>for i, (chunk, score) in enumerate(chunks, 1)\<close> loop of
  \<open>_generate_fallback_response\<close>. \<open>format_3f\<close> is \<open>format(score, ".3f")\<close>.\<close>

fun fallback_passages :: "('s \<Rightarrow> string) \<Rightarrow> nat \<Rightarrow> (PDFChunk \<times> 's) list \<Rightarrow> string" where
  "fallback_passages format_3f i [] = []"
| "fallback_passages format_3f i ((chunk, score) # rest) =
     ''--- Passage '' @ str_nat i @ '' (Page '' @ str_int (page_number chunk)
       @ '', Similarity: '' @ format_3f score @ '') ---\<newline>''
     @ take 500 (ctext chunk)
     @ (if length (ctext chunk) > 500 then ''...\<newline>'' else ''\<newline>'')
     @ ''\<newline>''
     @ fallback_passages format_3f (Suc i) rest"

text \<open>The closing note starts with a line feed and the code point U+1F4A1, which a \<open>char\<close>
  cannot hold; it is written here as the four bytes of its UTF-8 form.\<close>

definition fallback_note :: string where
  "fallback_note =
     ''\<newline>'' @ [CHR 0xF0, CHR 0x9F, CHR 0x92, CHR 0xA1]
     @ '' Note: Set GEMINI_API_KEY to get AI-generated answers instead of raw passages.''"

definition generate_fallback_response ::
  "('s \<Rightarrow> string) \<Rightarrow> string \<Rightarrow> (PDFChunk \<times> 's) list \<Rightarrow> string" where
  "generate_fallback_response format_3f query cs =
     (if cs = [] then ''[FALLBACK MODE] No relevant content found in the document.''
      else
        ''[FALLBACK MODE - Retrieval Only]\<newline>\<newline>''
        @ ''Found '' @ str_nat (length cs) @ '' relevant passages:\<newline>\<newline>''
        @ fallback_passages format_3f 1 cs
        @ fallback_note)"

text \<open>\<open>answer_query\<close>: the outcome (the answer, or the exception that leaves the method), the
  agent afterwards and the world afterwards. Printing is left out. Steps 5 and 6 are the
  \<open>else\<close> branch: the prompt is built before the \<open>try\<close>, the generator is called inside it.\<close>

definition answer_query ::
  "('s \<Rightarrow> string) \<Rightarrow> ('s, 'w) RAGChatAgent \<Rightarrow> string \<Rightarrow> 'w world
     \<Rightarrow> (py_error + string) \<times> ('s, 'w) RAGChatAgent \<times> 'w world" where
  "answer_query format_3f self user_query w =
     (case rewrite_query_if_needed self user_query w of
        (standalone_query, w1) \<Rightarrow>
          (case retrieve (retriever self) standalone_query (top_k self) of
             Inl e \<Rightarrow> (Inl e, self, w1)
           | Inr retrieved_chunks \<Rightarrow>
               (if fallback_mode self then
                  (let answer = generate_fallback_response format_3f user_query retrieved_chunks
                   in (Inr answer,
                       self\<lparr>conversation_history :=
                               conversation_history self @ [(user_query, answer)]\<rparr>, w1))
                else
                  (case build_grounded_prompt user_query retrieved_chunks
                          (conversation_history self) of
                     Inl e \<Rightarrow> (Inl e, self, w1)
                   | Inr prompt \<Rightarrow>
                       (case generate_content (model self)
                               (SYSTEM_INSTRUCTION @ ''\<newline>\<newline>'' @ prompt) w1 of
                          (r, w2) \<Rightarrow>
                            (let answer =
                               (case r of
                                  Inr response_text \<Rightarrow> strip response_text
                                | Inl e \<Rightarrow>
                                    generate_fallback_response format_3f user_query
                                      retrieved_chunks)
                             in (Inr answer,
                                 self\<lparr>conversation_history :=
                                         conversation_history self @ [(user_query, answer)]\<rparr>,
                                 w2)))))))"

definition reset_history :: "('s, 'w) RAGChatAgent \<Rightarrow> ('s, 'w) RAGChatAgent" where
  "reset_history self = self\<lparr>conversation_history := []\<rparr>"

definition get_history :: "('s, 'w) RAGChatAgent \<Rightarrow> (string \<times> string) list" where
  "get_history self = conversation_history self"

text \<open>The life of an agent after its construction: any sequence of calls of its public
  methods.\<close>

datatype agent_call = AnswerQuery string | ResetHistory | GetHistory

fun run_calls ::
  "('s \<Rightarrow> string) \<Rightarrow> agent_call list \<Rightarrow> ('s, 'w) RAGChatAgent \<Rightarrow> 'w world
     \<Rightarrow> ('s, 'w) RAGChatAgent \<times> 'w world" where
  "run_calls format_3f [] self w = (self, w)"
| "run_calls format_3f (AnswerQuery q # calls) self w =
     (case answer_query format_3f self q w of
        (outcome, self', w') \<Rightarrow> run_calls format_3f calls self' w')"
| "run_calls format_3f (ResetHistory # calls) self w =
     run_calls format_3f calls (reset_history self) w"
| "run_calls format_3f (GetHistory # calls) self w = run_calls format_3f calls self w"

text \<open>The number a string of decimal digits denotes (\<open>int(s)\<close>), to read a citation back.\<close>

definition digits_value :: "string \<Rightarrow> nat" where
  "digits_value s = foldl (\<lambda>a c. 10 * a + (of_char c - 48)) 0 s"

section \<open>Facts about the string built-ins\<close>

lemma mem_dropWhile: "x \<in> set xs \<Longrightarrow> \<not> P x \<Longrightarrow> x \<in> set (dropWhile P xs)"
  by (induction xs) auto

lemma mem_strip: "x \<in> set s \<Longrightarrow> \<not> isspace x \<Longrightarrow> x \<in> set (strip s)"
  unfolding strip_def by (simp add: mem_dropWhile)

lemma length_strip_le: "length (strip s) \<le> length s"
proof -
  have "length (strip s) \<le> length (dropWhile isspace s)"
    unfolding strip_def using length_dropWhile_le [of isspace "rev (dropWhile isspace s)"] by simp
  also have "\<dots> \<le> length s" by (rule length_dropWhile_le)
  finally show ?thesis .
qed

lemma strip_hd: "strip s \<noteq> [] \<Longrightarrow> \<not> isspace (hd (strip s))"
proof -
  assume ne: "strip s \<noteq> []"
  let ?d = "dropWhile isspace s"
  have d: "?d \<noteq> []"
  proof
    assume "?d = []"
    then have "strip s = []" by (simp only: strip_def rev.simps dropWhile.simps)
    with ne show False by simp
  qed
  then have hd: "\<not> isspace (hd ?d)" by (rule hd_dropWhile)
  let ?r = "dropWhile isspace (rev ?d)"
  have "hd ?d \<in> set (rev ?d)" using d by simp
  then have "hd ?d \<in> set ?r" using hd by (rule mem_dropWhile)
  have r: "?r \<noteq> []" using ne unfolding strip_def by auto
  obtain us where us: "rev ?d = us @ ?r"
    by (metis takeWhile_dropWhile_id)
  then have "?d = rev ?r @ rev us" by (metis rev_append rev_rev_ident)
  then have "hd ?d = hd (rev ?r)" using r by (metis hd_append2 rev_is_Nil_conv)
  then show ?thesis using hd unfolding strip_def by simp
qed

lemma strip_last: "strip s \<noteq> [] \<Longrightarrow> \<not> isspace (last (strip s))"
proof -
  assume ne: "strip s \<noteq> []"
  let ?r = "dropWhile isspace (rev (dropWhile isspace s))"
  have r: "?r \<noteq> []" using ne unfolding strip_def by auto
  then have "\<not> isspace (hd ?r)" by (rule hd_dropWhile)
  moreover have "last (rev ?r) = hd ?r" using r by (simp add: last_rev)
  ultimately show ?thesis unfolding strip_def by simp
qed

lemma length_py_slice: "0 \<le> i \<Longrightarrow> 0 \<le> n \<Longrightarrow> length (py_slice xs i (i + n)) \<le> nat n"
  unfolding py_slice_def Let_def by (auto simp: min_def)

lemma nth_mem_py_slice:
  assumes "0 \<le> s" "s \<le> int i" "int i < s + n" "i < length xs"
  shows "xs ! i \<in> set (py_slice xs s (s + n))"
proof -
  have sl: "py_slice xs s (s + n) = take (nat (min (s + n) (int (length xs)) - s)) (drop (nat s) xs)"
    using assms unfolding py_slice_def Let_def by (simp add: min_def)
  let ?k = "i - nat s"
  have k1: "?k < nat (min (s + n) (int (length xs)) - s)" using assms by (auto simp: min_def)
  have k2: "nat s + ?k = i" using assms by simp
  have "?k < length (take (nat (min (s + n) (int (length xs)) - s)) (drop (nat s) xs))"
    using k1 assms by simp
  then have "take (nat (min (s + n) (int (length xs)) - s)) (drop (nat s) xs) ! ?k
      \<in> set (take (nat (min (s + n) (int (length xs)) - s)) (drop (nat s) xs))"
    by (rule nth_mem)
  moreover have "take (nat (min (s + n) (int (length xs)) - s)) (drop (nat s) xs) ! ?k = xs ! i"
    using k1 k2 assms by simp
  ultimately show ?thesis using sl by simp
qed


lemma chunk_loop_spec:
  assumes step: "chunk_overlap self < chunk_size self"
  shows "\<exists>new. chunk_loop self txt page start cid out = Some (out @ new)
     \<and> map chunk_id new = map (\<lambda>i. cid + int i) [0..<length new]
     \<and> (\<forall>ch\<in>set new. page_number ch = page \<and> ctext ch \<noteq> []
            \<and> (\<exists>k::nat. ctext ch =
                  strip (py_slice txt (start + int k * (chunk_size self - chunk_overlap self))
                     (start + int k * (chunk_size self - chunk_overlap self) + chunk_size self))))
     \<and> (0 \<le> start \<and> 0 \<le> chunk_overlap self \<longrightarrow>
           (\<forall>i. start \<le> int i \<and> i < length txt \<and> \<not> isspace (txt ! i)
              \<longrightarrow> (\<exists>ch\<in>set new. txt ! i \<in> set (ctext ch))))"
proof (induction "nat (int (length txt) - start)" arbitrary: start cid out rule: less_induct)
  case less
  let ?size = "chunk_size self"
  let ?step = "chunk_size self - chunk_overlap self"
  let ?w = "strip (py_slice txt start (start + ?size))"
  show ?case
  proof (cases "start < int (length txt)")
    case False
    then have "chunk_loop self txt page start cid out = Some (out @ [])"
      by (subst chunk_loop.simps) simp
    moreover have "\<And>i. start \<le> int i \<Longrightarrow> i < length txt \<Longrightarrow> False" using False by simp
    ultimately show ?thesis by (intro exI [of _ "[]"]) auto
  next
    case True
    have dec: "nat (int (length txt) - (start + ?step)) < nat (int (length txt) - start)"
      using True step by simp
    have win: "\<And>k::nat. start + ?step + int k * ?step = start + int (Suc k) * ?step"
      by (simp add: algebra_simps)
    show ?thesis
    proof (cases "?w = []")
      case True
      from less [OF dec, of cid out] obtain new where
        r: "chunk_loop self txt page (start + ?step) cid out = Some (out @ new)"
        and ids: "map chunk_id new = map (\<lambda>i. cid + int i) [0..<length new]"
        and wins: "\<forall>ch\<in>set new. page_number ch = page \<and> ctext ch \<noteq> []
            \<and> (\<exists>k::nat. ctext ch =
                  strip (py_slice txt (start + ?step + int k * ?step)
                     (start + ?step + int k * ?step + ?size)))"
        and cov: "0 \<le> start + ?step \<and> 0 \<le> chunk_overlap self \<longrightarrow>
           (\<forall>i. start + ?step \<le> int i \<and> i < length txt \<and> \<not> isspace (txt ! i)
              \<longrightarrow> (\<exists>ch\<in>set new. txt ! i \<in> set (ctext ch)))"
        by blast
      have r': "chunk_loop self txt page start cid out = Some (out @ new)"
        using \<open>start < int (length txt)\<close> True r by (subst chunk_loop.simps) simp
      have wins': "\<forall>ch\<in>set new. page_number ch = page \<and> ctext ch \<noteq> []
            \<and> (\<exists>k::nat. ctext ch =
                  strip (py_slice txt (start + int k * ?step) (start + int k * ?step + ?size)))"
      proof
        fix ch assume "ch \<in> set new"
        with wins obtain k :: nat where "page_number ch = page" "ctext ch \<noteq> []"
          "ctext ch = strip (py_slice txt (start + ?step + int k * ?step)
                     (start + ?step + int k * ?step + ?size))" by blast
        then show "page_number ch = page \<and> ctext ch \<noteq> []
            \<and> (\<exists>k::nat. ctext ch =
                  strip (py_slice txt (start + int k * ?step) (start + int k * ?step + ?size)))"
          unfolding win by blast
      qed
      have cov': "0 \<le> start \<and> 0 \<le> chunk_overlap self \<longrightarrow>
           (\<forall>i. start \<le> int i \<and> i < length txt \<and> \<not> isspace (txt ! i)
              \<longrightarrow> (\<exists>ch\<in>set new. txt ! i \<in> set (ctext ch)))"
      proof (intro impI allI)
        fix i assume pos: "0 \<le> start \<and> 0 \<le> chunk_overlap self"
          and i: "start \<le> int i \<and> i < length txt \<and> \<not> isspace (txt ! i)"
        show "\<exists>ch\<in>set new. txt ! i \<in> set (ctext ch)"
        proof (cases "int i < start + ?size")
          case True
          then have "txt ! i \<in> set (py_slice txt start (start + ?size))"
            using pos i by (intro nth_mem_py_slice) auto
          then have "txt ! i \<in> set ?w" using i by (intro mem_strip) auto
          with \<open>?w = []\<close> show ?thesis by simp
        next
          case False
          then have "start + ?step \<le> int i" using pos by simp
          moreover have "0 \<le> start + ?step" using pos step by simp
          ultimately show ?thesis using cov pos i by blast
        qed
      qed
      show ?thesis using r' ids wins' cov' by blast
    next
      case False
      let ?c = "\<lparr>ctext = ?w, page_number = page, chunk_id = cid\<rparr>"
      from less [OF dec, of "cid + 1" "out @ [?c]"] obtain new where
        r: "chunk_loop self txt page (start + ?step) (cid + 1) (out @ [?c])
              = Some ((out @ [?c]) @ new)"
        and ids: "map chunk_id new = map (\<lambda>i. cid + 1 + int i) [0..<length new]"
        and wins: "\<forall>ch\<in>set new. page_number ch = page \<and> ctext ch \<noteq> []
            \<and> (\<exists>k::nat. ctext ch =
                  strip (py_slice txt (start + ?step + int k * ?step)
                     (start + ?step + int k * ?step + ?size)))"
        and cov: "0 \<le> start + ?step \<and> 0 \<le> chunk_overlap self \<longrightarrow>
           (\<forall>i. start + ?step \<le> int i \<and> i < length txt \<and> \<not> isspace (txt ! i)
              \<longrightarrow> (\<exists>ch\<in>set new. txt ! i \<in> set (ctext ch)))"
        by blast
      have r': "chunk_loop self txt page start cid out = Some (out @ (?c # new))"
        using \<open>start < int (length txt)\<close> False r by (subst chunk_loop.simps) simp
      have "map (\<lambda>i. cid + int i) [0..<length (?c # new)]
              = cid # map (\<lambda>i. cid + 1 + int i) [0..<length new]"
        by (simp add: upt_conv_Cons map_Suc_upt [symmetric] del: upt_Suc)
      then have ids': "map chunk_id (?c # new) = map (\<lambda>i. cid + int i) [0..<length (?c # new)]"
        using ids by simp
      have c0: "ctext ?c = strip (py_slice txt (start + int 0 * ?step) (start + int 0 * ?step + ?size))"
        by simp
      have wins': "\<forall>ch\<in>set (?c # new). page_number ch = page \<and> ctext ch \<noteq> []
            \<and> (\<exists>k::nat. ctext ch =
                  strip (py_slice txt (start + int k * ?step) (start + int k * ?step + ?size)))"
      proof
        fix ch assume "ch \<in> set (?c # new)"
        then consider "ch = ?c" | "ch \<in> set new" by auto
        then show "page_number ch = page \<and> ctext ch \<noteq> []
            \<and> (\<exists>k::nat. ctext ch =
                  strip (py_slice txt (start + int k * ?step) (start + int k * ?step + ?size)))"
        proof cases
          case 1
          then show ?thesis using False c0 by (intro conjI exI [of _ "0::nat"]) simp_all
        next
          case 2
          with wins obtain k :: nat where "page_number ch = page" "ctext ch \<noteq> []"
            "ctext ch = strip (py_slice txt (start + ?step + int k * ?step)
                     (start + ?step + int k * ?step + ?size))" by blast
          then show ?thesis unfolding win by blast
        qed
      qed
      have cov': "0 \<le> start \<and> 0 \<le> chunk_overlap self \<longrightarrow>
           (\<forall>i. start \<le> int i \<and> i < length txt \<and> \<not> isspace (txt ! i)
              \<longrightarrow> (\<exists>ch\<in>set (?c # new). txt ! i \<in> set (ctext ch)))"
      proof (intro impI allI)
        fix i assume pos: "0 \<le> start \<and> 0 \<le> chunk_overlap self"
          and i: "start \<le> int i \<and> i < length txt \<and> \<not> isspace (txt ! i)"
        show "\<exists>ch\<in>set (?c # new). txt ! i \<in> set (ctext ch)"
        proof (cases "int i < start + ?size")
          case True
          then have "txt ! i \<in> set (py_slice txt start (start + ?size))"
            using pos i by (intro nth_mem_py_slice) auto
          then have "txt ! i \<in> set ?w" using i by (intro mem_strip) auto
          then show ?thesis by simp
        next
          case False
          then have "start + ?step \<le> int i" using pos by simp
          moreover have "0 \<le> start + ?step" using pos step by simp
          ultimately have "\<exists>ch\<in>set new. txt ! i \<in> set (ctext ch)" using cov pos i by blast
          then show ?thesis by auto
        qed
      qed
      show ?thesis using r' ids' wins' cov' by blast
    qed
  qed
qed

lemma chunk_loop_diverges:
  assumes bad: "chunk_size self \<le> chunk_overlap self" and lt: "start < int (length t)"
  shows "chunk_loop self t page start cid out = None"
proof (rule ccontr)
  assume "chunk_loop self t page start cid out \<noteq> None"
  then obtain r where r: "chunk_loop self t page start cid out = Some r" by auto
  have "\<not> (chunk_size self \<le> chunk_overlap self \<and> start < int (length t))"
  proof (rule chunk_loop.raw_induct
      [where P = "\<lambda>s x p st c cs y. \<not> (chunk_size s \<le> chunk_overlap s \<and> st < int (length x))",
        OF _ r])
    fix f :: "PDFIngestor \<Rightarrow> string \<Rightarrow> int \<Rightarrow> int \<Rightarrow> int \<Rightarrow> PDFChunk list \<Rightarrow> PDFChunk list option"
    fix s x p st c cs y
    assume IH: "\<And>s x p st c cs y. f s x p st c cs = Some y \<Longrightarrow>
                 \<not> (chunk_size s \<le> chunk_overlap s \<and> st < int (length x))"
      and body: "(if st < int (length x)
        then if strip (py_slice x st (st + chunk_size s)) \<noteq> []
             then f s x p (st + (chunk_size s - chunk_overlap s)) (c + 1)
                   (cs @ [\<lparr>ctext = strip (py_slice x st (st + chunk_size s)),
                            page_number = p, chunk_id = c\<rparr>])
             else f s x p (st + (chunk_size s - chunk_overlap s)) c cs
        else Some cs) = Some y"
    show "\<not> (chunk_size s \<le> chunk_overlap s \<and> st < int (length x))"
    proof
      assume a: "chunk_size s \<le> chunk_overlap s \<and> st < int (length x)"
      then have nxt: "st + (chunk_size s - chunk_overlap s) < int (length x)" by simp
      from body a have
        "f s x p (st + (chunk_size s - chunk_overlap s)) (c + 1)
            (cs @ [\<lparr>ctext = strip (py_slice x st (st + chunk_size s)),
                     page_number = p, chunk_id = c\<rparr>]) = Some y
         \<or> f s x p (st + (chunk_size s - chunk_overlap s)) c cs = Some y"
        by (simp split: if_splits)
      then show False using IH a nxt by blast
    qed
  qed
  with bad lt show False by simp
qed

lemma map_upt_split:
  "map (\<lambda>i. (c::int) + int i) [0..<a + b]
     = map (\<lambda>i. c + int i) [0..<a] @ map (\<lambda>i. c + int a + int i) [0..<b]"
  by (induction b) (simp_all add: add.assoc [symmetric])

lemma chunk_text_spec:
  assumes step: "chunk_overlap self < chunk_size self"
  shows "\<exists>pcs. chunk_text self t pn cid = Some pcs
     \<and> map chunk_id pcs = map (\<lambda>i. cid + int i) [0..<length pcs]
     \<and> (\<forall>ch\<in>set pcs. page_number ch = pn \<and> ctext ch \<noteq> []
            \<and> (\<exists>k::nat. ctext ch =
                  strip (py_slice t (int k * (chunk_size self - chunk_overlap self))
                     (int k * (chunk_size self - chunk_overlap self) + chunk_size self))))
     \<and> (0 \<le> chunk_overlap self \<longrightarrow>
           (\<forall>i. i < length t \<and> \<not> isspace (t ! i)
              \<longrightarrow> (\<exists>ch\<in>set pcs. t ! i \<in> set (ctext ch))))"
proof -
  from chunk_loop_spec [OF step, of t pn 0 cid "[]"] obtain pcs where
    c: "chunk_loop self t pn 0 cid [] = Some ([] @ pcs)"
    and ids: "map chunk_id pcs = map (\<lambda>i. cid + int i) [0..<length pcs]"
    and wins: "\<forall>ch\<in>set pcs. page_number ch = pn \<and> ctext ch \<noteq> []
            \<and> (\<exists>k::nat. ctext ch =
                  strip (py_slice t (0 + int k * (chunk_size self - chunk_overlap self))
                     (0 + int k * (chunk_size self - chunk_overlap self) + chunk_size self)))"
    and cov: "0 \<le> (0::int) \<and> 0 \<le> chunk_overlap self \<longrightarrow>
           (\<forall>i. 0 \<le> int i \<and> i < length t \<and> \<not> isspace (t ! i)
              \<longrightarrow> (\<exists>ch\<in>set pcs. t ! i \<in> set (ctext ch)))"
    by blast
  from c have "chunk_text self t pn cid = Some pcs" by (simp add: chunk_text_def)
  moreover from wins have "\<forall>ch\<in>set pcs. page_number ch = pn \<and> ctext ch \<noteq> []
            \<and> (\<exists>k::nat. ctext ch =
                  strip (py_slice t (int k * (chunk_size self - chunk_overlap self))
                     (int k * (chunk_size self - chunk_overlap self) + chunk_size self)))"
    by simp
  moreover from cov have "0 \<le> chunk_overlap self \<longrightarrow>
           (\<forall>i. i < length t \<and> \<not> isspace (t ! i)
              \<longrightarrow> (\<exists>ch\<in>set pcs. t ! i \<in> set (ctext ch)))"
    by simp
  ultimately show ?thesis using ids by blast
qed

lemma ingest_loop_spec:
  assumes step: "chunk_overlap self < chunk_size self"
  shows "\<exists>new. ingest_loop self pages cid acc = Some (acc @ new)
     \<and> map chunk_id new = map (\<lambda>i. cid + int i) [0..<length new]"
proof (induction pages arbitrary: cid acc)
  case Nil
  show ?case by (intro exI [of _ "[]"]) simp
next
  case (Cons p pages)
  obtain pn t where p: "p = (pn, t)" by (cases p)
  from chunk_text_spec [OF step, of t pn cid] obtain pcs where
    c: "chunk_text self t pn cid = Some pcs"
    and ids: "map chunk_id pcs = map (\<lambda>i. cid + int i) [0..<length pcs]"
    by blast
  from Cons [of "cid + int (length pcs)" "acc @ pcs"] obtain new where
    r: "ingest_loop self pages (cid + int (length pcs)) (acc @ pcs) = Some ((acc @ pcs) @ new)"
    and ids': "map chunk_id new = map (\<lambda>i. cid + int (length pcs) + int i) [0..<length new]"
    by blast
  have "map chunk_id (pcs @ new) = map (\<lambda>i. cid + int i) [0..<length (pcs @ new)]"
    using ids ids' by (simp only: map_append length_append map_upt_split)
  moreover have "ingest_loop self (p # pages) cid acc = Some (acc @ (pcs @ new))"
    using p c r by simp
  ultimately show ?case by blast
qed

lemma chunk_loop_windows:
  assumes step: "chunk_overlap self < chunk_size self"
  shows "\<exists>n new. chunk_loop self t page start cid out = Some (out @ new)
     \<and> (\<forall>k<n. start + int k * (chunk_size self - chunk_overlap self) < int (length t))
     \<and> int (length t) \<le> start + int n * (chunk_size self - chunk_overlap self)
     \<and> map ctext new =
           filter (\<lambda>s. s \<noteq> [])
             (map (\<lambda>k. strip (py_slice t
                     (start + int k * (chunk_size self - chunk_overlap self))
                     (start + int k * (chunk_size self - chunk_overlap self) + chunk_size self)))
                [0..<n])"
proof (induction "nat (int (length t) - start)" arbitrary: start cid out rule: less_induct)
  case less
  let ?size = "chunk_size self"
  let ?step = "chunk_size self - chunk_overlap self"
  let ?W = "\<lambda>s (k::nat). strip (py_slice t (s + int k * ?step) (s + int k * ?step + ?size))"
  show ?case
  proof (cases "start < int (length t)")
    case False
    then have "chunk_loop self t page start cid out = Some (out @ [])"
      by (subst chunk_loop.simps) simp
    with False show ?thesis by (intro exI [of _ "0::nat"] exI [of _ "[]"]) simp
  next
    case True
    have dec: "nat (int (length t) - (start + ?step)) < nat (int (length t) - start)"
      using True step by simp
    have win: "\<And>k::nat. start + ?step + int k * ?step = start + int (Suc k) * ?step"
      by (simp add: algebra_simps)
    have shift: "map (?W start) [0..<Suc n] = ?W start 0 # map (?W (start + ?step)) [0..<n]" for n
      unfolding map_upt_Suc win by simp
    let ?w = "strip (py_slice t start (start + ?size))"
    have w0: "?W start 0 = ?w" by simp
    let ?c = "\<lparr>ctext = ?w, page_number = page, chunk_id = cid\<rparr>"
    obtain cid' out' where
      cid': "cid' = (if ?w \<noteq> [] then cid + 1 else cid)"
      and out': "out' = (if ?w \<noteq> [] then out @ [?c] else out)"
      by blast
    from less [OF dec, of cid' out'] obtain n new where
      r: "chunk_loop self t page (start + ?step) cid' out' = Some (out' @ new)"
      and lt: "\<forall>k<n. start + ?step + int k * ?step < int (length t)"
      and ge: "int (length t) \<le> start + ?step + int n * ?step"
      and tx: "map ctext new = filter (\<lambda>s. s \<noteq> []) (map (?W (start + ?step)) [0..<n])"
      by blast
    obtain new' where new': "new' = (if ?w \<noteq> [] then ?c # new else new)" by blast
    have r': "chunk_loop self t page start cid out = Some (out @ new')"
    proof (cases "?w = []")
      case True
      with r cid' out' new' \<open>start < int (length t)\<close> show ?thesis
        by (subst chunk_loop.simps) simp
    next
      case False
      with r cid' out' new' \<open>start < int (length t)\<close> show ?thesis
        by (subst chunk_loop.simps) simp
    qed
    have lt': "\<forall>k<Suc n. start + int k * ?step < int (length t)"
    proof (intro allI impI)
      fix k assume "k < Suc n"
      show "start + int k * ?step < int (length t)"
      proof (cases k)
        case 0
        with True show ?thesis by simp
      next
        case (Suc k')
        with \<open>k < Suc n\<close> have "k' < n" by simp
        with lt have "start + ?step + int k' * ?step < int (length t)" by blast
        then show ?thesis unfolding win Suc .
      qed
    qed
    have ge': "int (length t) \<le> start + int (Suc n) * ?step"
      using ge unfolding win .
    have tx': "map ctext new' = filter (\<lambda>s. s \<noteq> []) (map (?W start) [0..<Suc n])"
      unfolding shift w0 new' using tx by simp
    from r' lt' ge' tx' show ?thesis by blast
  qed
qed

lemma chunk_text_windows:
  assumes step: "chunk_overlap self < chunk_size self"
  shows "\<exists>n res. chunk_text self t page cid = Some res
     \<and> (\<forall>k<n. int k * (chunk_size self - chunk_overlap self) < int (length t))
     \<and> int (length t) \<le> int n * (chunk_size self - chunk_overlap self)
     \<and> map ctext res =
           filter (\<lambda>s. s \<noteq> [])
             (map (\<lambda>k. strip (py_slice t
                     (int k * (chunk_size self - chunk_overlap self))
                     (int k * (chunk_size self - chunk_overlap self) + chunk_size self)))
                [0..<n])
     \<and> map chunk_id res = map (\<lambda>i. cid + int i) [0..<length res]
     \<and> (\<forall>ch\<in>set res. page_number ch = page)"
proof -
  from chunk_loop_windows [OF step, of t page 0 cid "[]"] obtain n res where
    r: "chunk_loop self t page 0 cid [] = Some ([] @ res)"
    and lt: "\<forall>k<n. 0 + int k * (chunk_size self - chunk_overlap self) < int (length t)"
    and ge: "int (length t) \<le> 0 + int n * (chunk_size self - chunk_overlap self)"
    and tx: "map ctext res =
           filter (\<lambda>s. s \<noteq> [])
             (map (\<lambda>k. strip (py_slice t
                     (0 + int k * (chunk_size self - chunk_overlap self))
                     (0 + int k * (chunk_size self - chunk_overlap self) + chunk_size self)))
                [0..<n])"
    by blast
  from r have c: "chunk_text self t page cid = Some res" by (simp add: chunk_text_def)
  from chunk_text_spec [OF step, of t page cid] c have
    ids: "map chunk_id res = map (\<lambda>i. cid + int i) [0..<length res]"
    and pg: "\<forall>ch\<in>set res. page_number ch = page"
    by auto
  from lt have lt': "\<forall>k<n. int k * (chunk_size self - chunk_overlap self) < int (length t)"
    by simp
  from ge have ge': "int (length t) \<le> int n * (chunk_size self - chunk_overlap self)" by simp
  from tx have tx': "map ctext res =
           filter (\<lambda>s. s \<noteq> [])
             (map (\<lambda>k. strip (py_slice t
                     (int k * (chunk_size self - chunk_overlap self))
                     (int k * (chunk_size self - chunk_overlap self) + chunk_size self)))
                [0..<n])"
    by simp
  from c lt' ge' tx' ids pg show ?thesis by blast
qed

lemma ingest_loop_parts:
  assumes step: "chunk_overlap self < chunk_size self"
  shows "\<exists>parts. ingest_loop self pages cid acc = Some (acc @ concat parts)
     \<and> length parts = length pages
     \<and> (\<forall>j<length pages.
           chunk_text self (snd (pages ! j)) (fst (pages ! j))
             (cid + int (length (concat (take j parts)))) = Some (parts ! j))"
proof (induction pages arbitrary: cid acc)
  case Nil
  show ?case by (intro exI [of _ "[]"]) simp
next
  case (Cons p pages)
  obtain pn t where p: "p = (pn, t)" by (cases p)
  from chunk_text_spec [OF step, of t pn cid] obtain pcs where
    c: "chunk_text self t pn cid = Some pcs"
    by blast
  from Cons [of "cid + int (length pcs)" "acc @ pcs"] obtain parts where
    r: "ingest_loop self pages (cid + int (length pcs)) (acc @ pcs)
          = Some ((acc @ pcs) @ concat parts)"
    and len: "length parts = length pages"
    and each: "\<forall>j<length pages.
           chunk_text self (snd (pages ! j)) (fst (pages ! j))
             (cid + int (length pcs) + int (length (concat (take j parts)))) = Some (parts ! j)"
    by blast
  have r': "ingest_loop self (p # pages) cid acc = Some (acc @ concat (pcs # parts))"
    using p c r by simp
  have each': "\<forall>j<length (p # pages).
           chunk_text self (snd ((p # pages) ! j)) (fst ((p # pages) ! j))
             (cid + int (length (concat (take j (pcs # parts))))) = Some ((pcs # parts) ! j)"
  proof (intro allI impI)
    fix j assume j: "j < length (p # pages)"
    show "chunk_text self (snd ((p # pages) ! j)) (fst ((p # pages) ! j))
             (cid + int (length (concat (take j (pcs # parts))))) = Some ((pcs # parts) ! j)"
    proof (cases j)
      case 0
      with p c show ?thesis by simp
    next
      case (Suc j')
      with j have "j' < length pages" by simp
      with each have "chunk_text self (snd (pages ! j')) (fst (pages ! j'))
             (cid + int (length pcs) + int (length (concat (take j' parts)))) = Some (parts ! j')"
        by blast
      then show ?thesis unfolding Suc by (simp add: add.assoc)
    qed
  qed
  from r' len each' show ?case by (intro exI [of _ "pcs # parts"]) simp
qed

section \<open>Claims about the chunker\<close>

text \<open>
  C2. With \<open>chunk_size > chunk_overlap \<ge> 0\<close>, \<open>chunk_text\<close> returns. The chunk ids of its
  result are \<open>start_id, start_id + 1, ...\<close> without a gap, and the texts of its result are, in
  order, the trimmed windows at the offsets \<open>0, step, 2 * step, ...\<close> below the length of the
  text that are not empty (\<open>step = chunk_size - chunk_overlap\<close>). Every position of the text
  that holds no whitespace lies in such a window, whose trimmed text is the text of a
  returned chunk and holds the character at that position. \<open>ingest_pdf\<close> carries the counter
  across the pages: its result is the concatenation, in page order, of the results of
  \<open>chunk_text\<close> on each page, each started at the number of chunks of the pages before it,
  so the ids of all chunks of a document are \<open>0, 1, 2, ...\<close>.
\<close>

theorem chunk_ids_gapless_and_text_covered:
  assumes "0 \<le> chunk_overlap self" and "chunk_overlap self < chunk_size self"
  shows "(\<exists>n out. chunk_text self txt page start_id = Some out
            \<and> map chunk_id out = map (\<lambda>i. start_id + int i) [0..<length out]
            \<and> (\<forall>ch\<in>set out. page_number ch = page)
            \<and> (\<forall>k<n. int k * (chunk_size self - chunk_overlap self) < int (length txt))
            \<and> int (length txt) \<le> int n * (chunk_size self - chunk_overlap self)
            \<and> map ctext out =
                 filter (\<lambda>s. s \<noteq> [])
                   (map (\<lambda>k. strip (py_slice txt
                           (int k * (chunk_size self - chunk_overlap self))
                           (int k * (chunk_size self - chunk_overlap self) + chunk_size self)))
                      [0..<n])
            \<and> (\<forall>i<length txt. \<not> isspace (txt ! i) \<longrightarrow>
                  (\<exists>ch\<in>set out. \<exists>k<n.
                      int k * (chunk_size self - chunk_overlap self) \<le> int i
                      \<and> int i < int k * (chunk_size self - chunk_overlap self) + chunk_size self
                      \<and> ctext ch = strip (py_slice txt
                           (int k * (chunk_size self - chunk_overlap self))
                           (int k * (chunk_size self - chunk_overlap self) + chunk_size self))
                      \<and> txt ! i \<in> set (ctext ch))))
       \<and> (\<forall>raw. fs pdf_path = Some raw \<longrightarrow>
            (\<exists>pages parts.
               extract_text_from_pdf fs pdf_path = Inr pages
               \<and> ingest_pdf self fs pdf_path = Some (Inr (concat parts))
               \<and> length parts = length pages
               \<and> (\<forall>j<length pages.
                     chunk_text self (snd (pages ! j)) (fst (pages ! j))
                       (int (length (concat (take j parts)))) = Some (parts ! j))
               \<and> map chunk_id (concat parts) = map int [0..<length (concat parts)]))"
proof
  let ?step = "chunk_size self - chunk_overlap self"
  let ?size = "chunk_size self"
  let ?W = "\<lambda>k::nat. strip (py_slice txt (int k * ?step) (int k * ?step + ?size))"
  have pos: "0 < ?step" using assms(2) by simp
  from chunk_text_windows [OF assms(2), of "txt" page start_id] obtain n out where
    c: "chunk_text self txt page start_id = Some out"
    and lt: "\<forall>k<n. int k * ?step < int (length txt)"
    and ge: "int (length txt) \<le> int n * ?step"
    and tx: "map ctext out = filter (\<lambda>s. s \<noteq> []) (map ?W [0..<n])"
    and ids: "map chunk_id out = map (\<lambda>i. start_id + int i) [0..<length out]"
    and pg: "\<forall>ch\<in>set out. page_number ch = page"
    by blast
  have cov: "\<forall>i<length txt. \<not> isspace (txt ! i) \<longrightarrow>
                  (\<exists>ch\<in>set out. \<exists>k<n. int k * ?step \<le> int i \<and> int i < int k * ?step + ?size
                      \<and> ctext ch = ?W k \<and> txt ! i \<in> set (ctext ch))"
  proof (intro allI impI)
    fix i assume i: "i < length txt" and ns: "\<not> isspace (txt ! i)"
    define k where "k = nat (int i div ?step)"
    have q0: "0 \<le> int i div ?step" using pos by (simp add: pos_imp_zdiv_nonneg_iff)
    then have ik: "int k = int i div ?step" by (simp add: k_def)
    have m: "0 \<le> int i mod ?step" "int i mod ?step < ?step"
      using pos by simp_all
    have e: "int i = int k * ?step + int i mod ?step"
      unfolding ik using div_mult_mod_eq [of "int i" "?step"] by linarith
    from e m have lo: "int k * ?step \<le> int i" by linarith
    from e m assms(1) have hi: "int i < int k * ?step + ?size" by linarith
    have "int k * ?step < int n * ?step" using lo i ge by linarith
    then have kn: "k < n" using pos by (simp add: mult_less_cancel_right)
    have s0: "0 \<le> int k * ?step" using pos by simp
    have "txt ! i \<in> set (py_slice txt (int k * ?step) (int k * ?step + ?size))"
      using s0 lo hi i by (rule nth_mem_py_slice)
    then have mem: "txt ! i \<in> set (?W k)" using ns by (rule mem_strip)
    then have "?W k \<noteq> []" by auto
    then have "?W k \<in> set (filter (\<lambda>s. s \<noteq> []) (map ?W [0..<n]))" using kn by simp
    then have "?W k \<in> set (map ctext out)" unfolding tx .
    then obtain ch where ch: "ch \<in> set out" and ct: "ctext ch = ?W k" by auto
    from mem ct have mem': "txt ! i \<in> set (ctext ch)" by simp
    from kn lo hi ct mem' have "\<exists>k<n. int k * ?step \<le> int i
        \<and> int i < int k * ?step + ?size \<and> ctext ch = ?W k \<and> txt ! i \<in> set (ctext ch)"
      by blast
    with ch show "\<exists>ch\<in>set out. \<exists>k<n. int k * ?step \<le> int i
        \<and> int i < int k * ?step + ?size \<and> ctext ch = ?W k \<and> txt ! i \<in> set (ctext ch)"
      by blast
  qed
  from c ids pg lt ge tx cov
  show "\<exists>n out. chunk_text self txt page start_id = Some out
            \<and> map chunk_id out = map (\<lambda>i. start_id + int i) [0..<length out]
            \<and> (\<forall>ch\<in>set out. page_number ch = page)
            \<and> (\<forall>k<n. int k * ?step < int (length txt))
            \<and> int (length txt) \<le> int n * ?step
            \<and> map ctext out = filter (\<lambda>s. s \<noteq> []) (map ?W [0..<n])
            \<and> (\<forall>i<length txt. \<not> isspace (txt ! i) \<longrightarrow>
                  (\<exists>ch\<in>set out. \<exists>k<n. int k * ?step \<le> int i \<and> int i < int k * ?step + ?size
                      \<and> ctext ch = ?W k \<and> txt ! i \<in> set (ctext ch)))"
    by blast
next
  show "\<forall>raw. fs pdf_path = Some raw \<longrightarrow>
            (\<exists>pages parts.
               extract_text_from_pdf fs pdf_path = Inr pages
               \<and> ingest_pdf self fs pdf_path = Some (Inr (concat parts))
               \<and> length parts = length pages
               \<and> (\<forall>j<length pages.
                     chunk_text self (snd (pages ! j)) (fst (pages ! j))
                       (int (length (concat (take j parts)))) = Some (parts ! j))
               \<and> map chunk_id (concat parts) = map int [0..<length (concat parts)])"
  proof (intro allI impI)
    fix raw assume raw: "fs pdf_path = Some raw"
    then obtain pages where pages: "extract_text_from_pdf fs pdf_path = Inr pages"
      by (simp add: extract_text_from_pdf_def)
    from ingest_loop_parts [OF assms(2), of pages 0 "[]"] obtain parts where
      r: "ingest_loop self pages 0 [] = Some ([] @ concat parts)"
      and len: "length parts = length pages"
      and each: "\<forall>j<length pages.
           chunk_text self (snd (pages ! j)) (fst (pages ! j))
             (0 + int (length (concat (take j parts)))) = Some (parts ! j)"
      by blast
    from ingest_loop_spec [OF assms(2), of pages 0 "[]"] r have
      ids: "map chunk_id (concat parts) = map (\<lambda>i. 0 + int i) [0..<length (concat parts)]"
      by auto
    from pages r have i: "ingest_pdf self fs pdf_path = Some (Inr (concat parts))"
      by (simp add: ingest_pdf_def)
    from each have each': "\<forall>j<length pages.
           chunk_text self (snd (pages ! j)) (fst (pages ! j))
             (int (length (concat (take j parts)))) = Some (parts ! j)"
      by simp
    from ids have ids': "map chunk_id (concat parts) = map int [0..<length (concat parts)]"
      by simp
    from pages i len each' ids'
    show "\<exists>pages parts.
               extract_text_from_pdf fs pdf_path = Inr pages
               \<and> ingest_pdf self fs pdf_path = Some (Inr (concat parts))
               \<and> length parts = length pages
               \<and> (\<forall>j<length pages.
                     chunk_text self (snd (pages ! j)) (fst (pages ! j))
                       (int (length (concat (take j parts)))) = Some (parts ! j))
               \<and> map chunk_id (concat parts) = map int [0..<length (concat parts)]"
      by blast
  qed
qed

theorem chunk_ids_gapless_and_text_covered_witness:
  "0 \<le> chunk_overlap \<lparr>chunk_size = 4, chunk_overlap = 1\<rparr>
   \<and> chunk_overlap \<lparr>chunk_size = 4, chunk_overlap = 1\<rparr> < chunk_size \<lparr>chunk_size = 4, chunk_overlap = 1\<rparr>
   \<and> chunk_text \<lparr>chunk_size = 4, chunk_overlap = 1\<rparr> ''ab  cdefg'' 1 5 =
       Some [\<lparr>ctext = ''ab'', page_number = 1, chunk_id = 5\<rparr>,
             \<lparr>ctext = ''cde'', page_number = 1, chunk_id = 6\<rparr>,
             \<lparr>ctext = ''efg'', page_number = 1, chunk_id = 7\<rparr>]
   \<and> map ctext [\<lparr>ctext = ''ab'', page_number = 1, chunk_id = 5\<rparr>,
                 \<lparr>ctext = ''cde'', page_number = 1, chunk_id = 6\<rparr>,
                 \<lparr>ctext = ''efg'', page_number = 1, chunk_id = 7\<rparr>] =
       filter (\<lambda>s. s \<noteq> [])
         (map (\<lambda>k. strip (py_slice ''ab  cdefg'' (int k * 3) (int k * 3 + 4))) [0..<3])
   \<and> \<not> isspace (''ab  cdefg'' ! 4)
   \<and> (\<exists>ch\<in>set [\<lparr>ctext = ''ab'', page_number = 1, chunk_id = 5\<rparr>,
                  \<lparr>ctext = ''cde'', page_number = 1, chunk_id = 6\<rparr>,
                  \<lparr>ctext = ''efg'', page_number = 1, chunk_id = 7\<rparr>].
         \<exists>k<3. int k * 3 \<le> 4 \<and> 4 < int k * 3 + 4
            \<and> ctext ch = strip (py_slice ''ab  cdefg'' (int k * 3) (int k * 3 + 4))
            \<and> ''ab  cdefg'' ! 4 \<in> set (ctext ch))
   \<and> (\<lambda>p. Some [''ab  cdefg'', ''  '', ''hi'']) ''doc.pdf'' = Some [''ab  cdefg'', ''  '', ''hi'']
   \<and> extract_text_from_pdf (\<lambda>p. Some [''ab  cdefg'', ''  '', ''hi'']) ''doc.pdf'' =
       Inr [(1, ''ab  cdefg''), (3, ''hi'')]
   \<and> ingest_pdf \<lparr>chunk_size = 4, chunk_overlap = 1\<rparr>
         (\<lambda>p. Some [''ab  cdefg'', ''  '', ''hi'']) ''doc.pdf'' =
       Some (Inr (concat
         [[\<lparr>ctext = ''ab'', page_number = 1, chunk_id = 0\<rparr>,
           \<lparr>ctext = ''cde'', page_number = 1, chunk_id = 1\<rparr>,
           \<lparr>ctext = ''efg'', page_number = 1, chunk_id = 2\<rparr>],
          [\<lparr>ctext = ''hi'', page_number = 3, chunk_id = 3\<rparr>]]))
   \<and> chunk_text \<lparr>chunk_size = 4, chunk_overlap = 1\<rparr> ''ab  cdefg'' 1 0 =
       Some [\<lparr>ctext = ''ab'', page_number = 1, chunk_id = 0\<rparr>,
             \<lparr>ctext = ''cde'', page_number = 1, chunk_id = 1\<rparr>,
             \<lparr>ctext = ''efg'', page_number = 1, chunk_id = 2\<rparr>]
   \<and> chunk_text \<lparr>chunk_size = 4, chunk_overlap = 1\<rparr> ''hi'' 3 3 =
       Some [\<lparr>ctext = ''hi'', page_number = 3, chunk_id = 3\<rparr>]"
proof -
  let ?S = "\<lparr>chunk_size = 4, chunk_overlap = 1\<rparr>"
  let ?t = "''ab  cdefg''"
  let ?fs = "\<lambda>p::string. Some [''ab  cdefg'', ''  '', ''hi'']"
  let ?c = "\<lambda>i. [\<lparr>ctext = ''ab'', page_number = 1, chunk_id = i\<rparr>,
                 \<lparr>ctext = ''cde'', page_number = 1, chunk_id = i + 1\<rparr>,
                 \<lparr>ctext = ''efg'', page_number = 1, chunk_id = i + 2\<rparr>]"
  have h1: "0 \<le> chunk_overlap ?S" by simp
  have h2: "chunk_overlap ?S < chunk_size ?S" by simp
  have h3: "?fs ''doc.pdf'' = Some [''ab  cdefg'', ''  '', ''hi'']" by simp
  have ns: "\<not> isspace (?t ! 4)" by (simp add: isspace_def)
  have ex: "extract_text_from_pdf ?fs ''doc.pdf'' = Inr [(1, ''ab  cdefg''), (3, ''hi'')]"
    by code_simp
  from chunk_ids_gapless_and_text_covered [OF h1 h2, of ?t 1 5 ?fs "''doc.pdf''"]
  obtain n out pages parts where
    c: "chunk_text ?S ?t 1 5 = Some out"
    and ids: "map chunk_id out = map (\<lambda>i. 5 + int i) [0..<length out]"
    and pg: "\<forall>ch\<in>set out. page_number ch = 1"
    and lt: "\<forall>k<n. int k * (chunk_size ?S - chunk_overlap ?S) < int (length ?t)"
    and ge: "int (length ?t) \<le> int n * (chunk_size ?S - chunk_overlap ?S)"
    and tx: "map ctext out = filter (\<lambda>s. s \<noteq> [])
              (map (\<lambda>k. strip (py_slice ?t (int k * (chunk_size ?S - chunk_overlap ?S))
                       (int k * (chunk_size ?S - chunk_overlap ?S) + chunk_size ?S))) [0..<n])"
    and cov: "\<forall>i<length ?t. \<not> isspace (?t ! i) \<longrightarrow>
                (\<exists>ch\<in>set out. \<exists>k<n. int k * (chunk_size ?S - chunk_overlap ?S) \<le> int i
                   \<and> int i < int k * (chunk_size ?S - chunk_overlap ?S) + chunk_size ?S
                   \<and> ctext ch = strip (py_slice ?t (int k * (chunk_size ?S - chunk_overlap ?S))
                        (int k * (chunk_size ?S - chunk_overlap ?S) + chunk_size ?S))
                   \<and> ?t ! i \<in> set (ctext ch))"
    and pages: "extract_text_from_pdf ?fs ''doc.pdf'' = Inr pages"
    and ing: "ingest_pdf ?S ?fs ''doc.pdf'' = Some (Inr (concat parts))"
    and len: "length parts = length pages"
    and each: "\<forall>j<length pages. chunk_text ?S (snd (pages ! j)) (fst (pages ! j))
                 (int (length (concat (take j parts)))) = Some (parts ! j)"
    using h3 by blast
  have n3: "n = 3"
  proof -
    have "\<not> 3 < n" using lt by auto
    moreover have "3 \<le> n" using ge by simp
    ultimately show ?thesis by simp
  qed
  have ev: "chunk_text ?S ?t 1 5 = Some (?c 5)" by code_simp
  with c have out: "out = ?c 5" by simp
  have pe: "pages = [(1, ''ab  cdefg''), (3, ''hi'')]" using pages ex by simp
  have l2: "length parts = 2" using len pe by simp
  then obtain p0 p1 where parts: "parts = [p0, p1]"
    by (cases parts; cases "tl parts"; cases "tl (tl parts)") auto
  have "0 < length pages" using pe by simp
  with each have "chunk_text ?S (snd (pages ! 0)) (fst (pages ! 0))
      (int (length (concat (take 0 parts)))) = Some (parts ! 0)"
    by blast
  then have e0: "chunk_text ?S ?t 1 0 = Some p0"
    unfolding pe parts by simp
  have ev0: "chunk_text ?S ?t 1 0 = Some (?c 0)" by code_simp
  with e0 have p0: "p0 = ?c 0" by simp
  have "1 < length pages" using pe by simp
  with each have "chunk_text ?S (snd (pages ! 1)) (fst (pages ! 1))
      (int (length (concat (take 1 parts)))) = Some (parts ! 1)"
    by blast
  then have e1: "chunk_text ?S ''hi'' 3 3 = Some p1"
    unfolding pe parts p0 by simp
  have ev1: "chunk_text ?S ''hi'' 3 3 = Some [\<lparr>ctext = ''hi'', page_number = 3, chunk_id = 3\<rparr>]"
    by code_simp
  with e1 have p1: "p1 = [\<lparr>ctext = ''hi'', page_number = 3, chunk_id = 3\<rparr>]" by simp
  from tx have tx': "map ctext (?c 5) = filter (\<lambda>s. s \<noteq> [])
         (map (\<lambda>k. strip (py_slice ?t (int k * 3) (int k * 3 + 4))) [0..<3])"
    unfolding out n3 by simp
  have i4: "4 < length ?t" by simp
  note cov4 = cov [rule_format, OF i4 ns]
  from cov4 have cov': "\<exists>ch\<in>set (?c 5). \<exists>k<3. int k * 3 \<le> 4 \<and> 4 < int k * 3 + 4
            \<and> ctext ch = strip (py_slice ?t (int k * 3) (int k * 3 + 4))
            \<and> ?t ! 4 \<in> set (ctext ch)"
    unfolding out n3 by simp
  from ing have ing': "ingest_pdf ?S ?fs ''doc.pdf'' =
       Some (Inr (concat [?c 0, [\<lparr>ctext = ''hi'', page_number = 3, chunk_id = 3\<rparr>]]))"
    unfolding parts p0 p1 .
  show ?thesis
    using h1 h2 ev tx' ns cov' h3 ex ing' ev0 ev1 by simp
qed

text \<open>
  C3, as the code has it. The constructor checks nothing: it accepts every pair of integers
  and stores it, also when \<open>chunk_overlap \<ge> chunk_size\<close>. With such a pair \<open>chunk_text\<close> does
  not return on any text that is not empty.
\<close>

theorem overlap_not_validated:
  "PDFIngestor_init cs co = Inr \<lparr>chunk_size = cs, chunk_overlap = co\<rparr>
   \<and> (cs \<le> co \<and> txt \<noteq> [] \<longrightarrow>
        chunk_text \<lparr>chunk_size = cs, chunk_overlap = co\<rparr> txt page start_id = None)"
proof -
  have "chunk_text \<lparr>chunk_size = cs, chunk_overlap = co\<rparr> txt page start_id = None"
    if "cs \<le> co" "txt \<noteq> []"
    unfolding chunk_text_def using that by (intro chunk_loop_diverges) simp_all
  then show ?thesis by (simp add: PDFIngestor_init_def)
qed

theorem overlap_not_validated_witness:
  "PDFIngestor_init 5 5 = Inr \<lparr>chunk_size = 5, chunk_overlap = 5\<rparr>
   \<and> (5::int) \<le> 5 \<and> ''ab'' \<noteq> []
   \<and> chunk_text \<lparr>chunk_size = 5, chunk_overlap = 5\<rparr> ''ab'' 1 0 = None"
  using overlap_not_validated [of 5 5 "''ab''" 1 0] by simp

text \<open>
  C3, as the claim states it, fails: constructing the chunker with
  \<open>chunk_size = chunk_overlap = 100\<close> is no error, and chunking the one-character text
  \<open>a\<close> with the object obtained does not return.
\<close>

theorem overlap_equal_size_accepted:
  "PDFIngestor_init 100 100 = Inr \<lparr>chunk_size = 100, chunk_overlap = 100\<rparr>
   \<and> chunk_text \<lparr>chunk_size = 100, chunk_overlap = 100\<rparr> ''a'' 1 0 = None"
proof -
  have "chunk_text \<lparr>chunk_size = 100, chunk_overlap = 100\<rparr> ''a'' 1 0 = None"
    unfolding chunk_text_def by (intro chunk_loop_diverges) simp_all
  then show ?thesis by (simp add: PDFIngestor_init_def)
qed

text \<open>
  C9. One page of 250 characters, \<open>chunk_size = 100\<close>, \<open>chunk_overlap = 20\<close>, every window
  non-empty after trimming: four chunks with the ids 0, 1, 2, 3, whose texts are the
  trimmed windows that start at the offsets 0, 80, 160 and 240. The last two windows end
  with the text.
\<close>

theorem chunk_text_250:
  assumes "length txt = 250"
    and "strip (py_slice txt 0 100) \<noteq> []" and "strip (py_slice txt 80 180) \<noteq> []"
    and "strip (py_slice txt 160 260) \<noteq> []" and "strip (py_slice txt 240 340) \<noteq> []"
  shows "chunk_text \<lparr>chunk_size = 100, chunk_overlap = 20\<rparr> txt page 0 =
           Some [\<lparr>ctext = strip (py_slice txt 0 100), page_number = page, chunk_id = 0\<rparr>,
                 \<lparr>ctext = strip (py_slice txt 80 180), page_number = page, chunk_id = 1\<rparr>,
                 \<lparr>ctext = strip (py_slice txt 160 260), page_number = page, chunk_id = 2\<rparr>,
                 \<lparr>ctext = strip (py_slice txt 240 340), page_number = page, chunk_id = 3\<rparr>]
     \<and> ingest_loop \<lparr>chunk_size = 100, chunk_overlap = 20\<rparr> [(page, txt)] 0 [] =
           chunk_text \<lparr>chunk_size = 100, chunk_overlap = 20\<rparr> txt page 0
     \<and> py_slice txt 0 100 = take 100 txt
     \<and> py_slice txt 80 180 = take 100 (drop 80 txt)
     \<and> py_slice txt 160 260 = drop 160 txt
     \<and> py_slice txt 240 340 = drop 240 txt"
proof -
  let ?self = "\<lparr>chunk_size = 100, chunk_overlap = 20\<rparr>"
  let ?c0 = "\<lparr>ctext = strip (py_slice txt 0 100), page_number = page, chunk_id = 0\<rparr>"
  let ?c1 = "\<lparr>ctext = strip (py_slice txt 80 180), page_number = page, chunk_id = 1\<rparr>"
  let ?c2 = "\<lparr>ctext = strip (py_slice txt 160 260), page_number = page, chunk_id = 2\<rparr>"
  let ?c3 = "\<lparr>ctext = strip (py_slice txt 240 340), page_number = page, chunk_id = 3\<rparr>"
  have s4: "chunk_loop ?self txt page 320 4 [?c0, ?c1, ?c2, ?c3] = Some [?c0, ?c1, ?c2, ?c3]"
    using assms(1) by (subst chunk_loop.simps) simp
  have s3: "chunk_loop ?self txt page 240 3 [?c0, ?c1, ?c2] = Some [?c0, ?c1, ?c2, ?c3]"
    using assms(1) assms(5) s4 by (subst chunk_loop.simps) simp
  have s2: "chunk_loop ?self txt page 160 2 [?c0, ?c1] = Some [?c0, ?c1, ?c2, ?c3]"
    using assms(1) assms(4) s3 by (subst chunk_loop.simps) simp
  have s1: "chunk_loop ?self txt page 80 1 [?c0] = Some [?c0, ?c1, ?c2, ?c3]"
    using assms(1) assms(3) s2 by (subst chunk_loop.simps) simp
  have s0: "chunk_loop ?self txt page 0 0 [] = Some [?c0, ?c1, ?c2, ?c3]"
    using assms(1) assms(2) s1 by (subst chunk_loop.simps) simp
  have r: "chunk_text ?self txt page 0 = Some [?c0, ?c1, ?c2, ?c3]"
    using s0 by (simp add: chunk_text_def)
  have i: "ingest_loop ?self [(page, txt)] 0 [] = chunk_text ?self txt page 0"
    using r by simp
  have w: "py_slice txt 0 100 = take 100 txt" "py_slice txt 80 180 = take 100 (drop 80 txt)"
    "py_slice txt 160 260 = drop 160 txt" "py_slice txt 240 340 = drop 240 txt"
    using assms(1) by (simp_all add: py_slice_def)
  from r i w show ?thesis by simp
qed

theorem chunk_text_250_witness:
  "length (replicate 250 CHR ''x'') = 250
   \<and> strip (py_slice (replicate 250 CHR ''x'') 0 100) \<noteq> []
   \<and> strip (py_slice (replicate 250 CHR ''x'') 80 180) \<noteq> []
   \<and> strip (py_slice (replicate 250 CHR ''x'') 160 260) \<noteq> []
   \<and> strip (py_slice (replicate 250 CHR ''x'') 240 340) \<noteq> []
   \<and> chunk_text \<lparr>chunk_size = 100, chunk_overlap = 20\<rparr> (replicate 250 CHR ''x'') 1 0 =
       Some [\<lparr>ctext = replicate 100 CHR ''x'', page_number = 1, chunk_id = 0\<rparr>,
             \<lparr>ctext = replicate 100 CHR ''x'', page_number = 1, chunk_id = 1\<rparr>,
             \<lparr>ctext = replicate 90 CHR ''x'', page_number = 1, chunk_id = 2\<rparr>,
             \<lparr>ctext = replicate 10 CHR ''x'', page_number = 1, chunk_id = 3\<rparr>]"
proof -
  have st: "strip (replicate n CHR ''x'') = replicate n CHR ''x''" for n
    by (simp add: strip_def isspace_def dropWhile_replicate)
  have w: "py_slice (replicate 250 CHR ''x'') 0 100 = replicate 100 CHR ''x''"
    "py_slice (replicate 250 CHR ''x'') 80 180 = replicate 100 CHR ''x''"
    "py_slice (replicate 250 CHR ''x'') 160 260 = replicate 90 CHR ''x''"
    "py_slice (replicate 250 CHR ''x'') 240 340 = replicate 10 CHR ''x''"
    by (simp_all add: py_slice_def)
  have h: "length (replicate 250 CHR ''x'') = 250"
    "strip (py_slice (replicate 250 CHR ''x'') 0 100) \<noteq> []"
    "strip (py_slice (replicate 250 CHR ''x'') 80 180) \<noteq> []"
    "strip (py_slice (replicate 250 CHR ''x'') 160 260) \<noteq> []"
    "strip (py_slice (replicate 250 CHR ''x'') 240 340) \<noteq> []"
    by (simp_all add: w st)
  from chunk_text_250 [OF h, of 1] show ?thesis using h by (simp add: w st)
qed

text \<open>
  C10. With \<open>chunk_size > chunk_overlap \<ge> 0\<close>, \<open>chunk_text\<close> returns, and the text of every
  chunk it returns is \<open>text[s : s + chunk_size].strip()\<close> for an offset \<open>s\<close> that is a multiple
  of \<open>chunk_size - chunk_overlap\<close>; it is not empty, neither starts nor ends with whitespace,
  and is at most \<open>chunk_size\<close> characters long.
\<close>

theorem chunk_text_trimmed_windows:
  assumes "0 \<le> chunk_overlap self" and "chunk_overlap self < chunk_size self"
  shows "\<exists>out. chunk_text self txt page start_id = Some out
     \<and> (\<forall>ch\<in>set out.
           (\<exists>k::nat. ctext ch =
               strip (py_slice txt (int k * (chunk_size self - chunk_overlap self))
                        (int k * (chunk_size self - chunk_overlap self) + chunk_size self)))
           \<and> ctext ch \<noteq> []
           \<and> \<not> isspace (hd (ctext ch)) \<and> \<not> isspace (last (ctext ch))
           \<and> int (length (ctext ch)) \<le> chunk_size self)"
proof -
  from chunk_text_spec [OF assms(2), of "txt" page start_id] obtain out where
    c: "chunk_text self txt page start_id = Some out"
    and wins: "\<forall>ch\<in>set out. page_number ch = page \<and> ctext ch \<noteq> []
            \<and> (\<exists>k::nat. ctext ch =
                  strip (py_slice txt (int k * (chunk_size self - chunk_overlap self))
                     (int k * (chunk_size self - chunk_overlap self) + chunk_size self)))"
    by blast
  have "\<forall>ch\<in>set out.
           (\<exists>k::nat. ctext ch =
               strip (py_slice txt (int k * (chunk_size self - chunk_overlap self))
                        (int k * (chunk_size self - chunk_overlap self) + chunk_size self)))
           \<and> ctext ch \<noteq> []
           \<and> \<not> isspace (hd (ctext ch)) \<and> \<not> isspace (last (ctext ch))
           \<and> int (length (ctext ch)) \<le> chunk_size self"
  proof
    fix ch assume "ch \<in> set out"
    with wins obtain k :: nat where ne: "ctext ch \<noteq> []"
      and k: "ctext ch = strip (py_slice txt (int k * (chunk_size self - chunk_overlap self))
                     (int k * (chunk_size self - chunk_overlap self) + chunk_size self))"
      by blast
    let ?s = "int k * (chunk_size self - chunk_overlap self)"
    have s0: "0 \<le> ?s" using assms(2) by simp
    have "length (ctext ch) \<le> length (py_slice txt ?s (?s + chunk_size self))"
      unfolding k by (rule length_strip_le)
    also have "\<dots> \<le> nat (chunk_size self)"
      using s0 assms by (intro length_py_slice) simp_all
    finally have len: "int (length (ctext ch)) \<le> chunk_size self" using assms by simp
    have "\<not> isspace (hd (ctext ch))" "\<not> isspace (last (ctext ch))"
      using ne unfolding k by (rule strip_hd, rule strip_last)
    with ne k len show "(\<exists>k::nat. ctext ch =
               strip (py_slice txt (int k * (chunk_size self - chunk_overlap self))
                        (int k * (chunk_size self - chunk_overlap self) + chunk_size self)))
           \<and> ctext ch \<noteq> []
           \<and> \<not> isspace (hd (ctext ch)) \<and> \<not> isspace (last (ctext ch))
           \<and> int (length (ctext ch)) \<le> chunk_size self"
      by blast
  qed
  with c show ?thesis by blast
qed

theorem chunk_text_trimmed_windows_witness:
  "0 \<le> chunk_overlap \<lparr>chunk_size = 4, chunk_overlap = 1\<rparr>
   \<and> chunk_overlap \<lparr>chunk_size = 4, chunk_overlap = 1\<rparr> < chunk_size \<lparr>chunk_size = 4, chunk_overlap = 1\<rparr>
   \<and> (\<exists>out. chunk_text \<lparr>chunk_size = 4, chunk_overlap = 1\<rparr> ''ab  cdefg'' 1 5 = Some out
     \<and> (\<forall>ch\<in>set out.
           (\<exists>k::nat. ctext ch =
               strip (py_slice ''ab  cdefg''
                        (int k * (chunk_size \<lparr>chunk_size = 4, chunk_overlap = 1\<rparr>
                                   - chunk_overlap \<lparr>chunk_size = 4, chunk_overlap = 1\<rparr>))
                        (int k * (chunk_size \<lparr>chunk_size = 4, chunk_overlap = 1\<rparr>
                                   - chunk_overlap \<lparr>chunk_size = 4, chunk_overlap = 1\<rparr>)
                           + chunk_size \<lparr>chunk_size = 4, chunk_overlap = 1\<rparr>)))
           \<and> ctext ch \<noteq> []
           \<and> \<not> isspace (hd (ctext ch)) \<and> \<not> isspace (last (ctext ch))
           \<and> int (length (ctext ch)) \<le> chunk_size \<lparr>chunk_size = 4, chunk_overlap = 1\<rparr>))"
proof -
  have h1: "0 \<le> chunk_overlap \<lparr>chunk_size = 4, chunk_overlap = 1\<rparr>" by simp
  have h2: "chunk_overlap \<lparr>chunk_size = 4, chunk_overlap = 1\<rparr>
              < chunk_size \<lparr>chunk_size = 4, chunk_overlap = 1\<rparr>" by simp
  from chunk_text_trimmed_windows [OF h1 h2, of "''ab  cdefg''" 1 5]
  show ?thesis using h1 h2 by blast
qed

section \<open>Citations\<close>

lemma isdigit_digit_char: "d < 10 \<Longrightarrow> isdigit (digit_char d)"
  by (simp add: isdigit_def digit_char_def)

lemma str_nat_isdigit: "\<forall>c\<in>set (str_nat n). isdigit c"
proof (induction n rule: str_nat.induct)
  case (1 n)
  show ?case
  proof (cases "n < 10")
    case True
    then show ?thesis by (subst str_nat.simps) (simp add: isdigit_digit_char)
  next
    case False
    with 1 have "\<forall>c\<in>set (str_nat (n div 10)). isdigit c" by simp
    moreover have "isdigit (digit_char (n mod 10))" by (rule isdigit_digit_char) simp
    ultimately show ?thesis using False by (subst str_nat.simps) simp
  qed
qed

lemma str_nat_not_Nil: "str_nat n \<noteq> []"
  by (subst str_nat.simps) simp

lemma digits_value_snoc:
  "digits_value (s @ [c]) = 10 * digits_value s + (of_char c - 48)"
  by (simp add: digits_value_def)

lemma digits_value_digit_char: "d < 10 \<Longrightarrow> of_char (digit_char d) - 48 = d"
  by (simp add: digit_char_def)

lemma digits_value_str_nat: "digits_value (str_nat n) = n"
proof (induction n rule: str_nat.induct)
  case (1 n)
  show ?case
  proof (cases "n < 10")
    case True
    then have "str_nat n = [digit_char n]" by (subst str_nat.simps) simp
    then show ?thesis using True by (simp add: digits_value_def digits_value_digit_char)
  next
    case False
    then have s: "str_nat n = str_nat (n div 10) @ [digit_char (n mod 10)]"
      by (subst str_nat.simps) simp
    from 1 False have "digits_value (str_nat (n div 10)) = n div 10" by simp
    then show ?thesis
      unfolding s digits_value_snoc by (simp add: digits_value_digit_char)
  qed
qed

lemma takeWhile_run: "\<forall>x\<in>set xs. P x \<Longrightarrow> \<not> P y \<Longrightarrow> takeWhile P (xs @ y # ys) = xs"
  by (induction xs) auto

lemma dropWhile_run: "\<forall>x\<in>set xs. P x \<Longrightarrow> \<not> P y \<Longrightarrow> dropWhile P (xs @ y # ys) = y # ys"
  by (induction xs) auto

lemma match_citation_rendered:
  assumes d1: "\<forall>x\<in>set d1. isdigit x" "d1 \<noteq> []" and d2: "\<forall>x\<in>set d2. isdigit x" "d2 \<noteq> []"
  shows "match_citation (''[p'' @ d1 @ '':c'' @ d2 @ '']'' @ rest)
           = Some ((d1, d2), length d1 + length d2 + 5)"
proof -
  have nd: "\<not> isdigit CHR '':''" "\<not> isdigit CHR '']''" by (simp_all add: isdigit_def)
  have t1: "takeWhile isdigit (d1 @ CHR '':'' # CHR ''c'' # d2 @ CHR '']'' # rest) = d1"
    using d1(1) nd(1) by (rule takeWhile_run)
  have r1: "dropWhile isdigit (d1 @ CHR '':'' # CHR ''c'' # d2 @ CHR '']'' # rest)
              = CHR '':'' # CHR ''c'' # d2 @ CHR '']'' # rest"
    using d1(1) nd(1) by (rule dropWhile_run)
  have t2: "takeWhile isdigit (d2 @ CHR '']'' # rest) = d2"
    using d2(1) nd(2) by (rule takeWhile_run)
  have r2: "dropWhile isdigit (d2 @ CHR '']'' # rest) = CHR '']'' # rest"
    using d2(1) nd(2) by (rule dropWhile_run)
  show ?thesis
    using d1(2) d2(2) by (simp add: match_citation_def t1 r1 t2 r2)
qed

lemma findall_citations_skip_all: "length s \<le> skip \<Longrightarrow> findall_citations skip s = []"
  by (induction skip s rule: findall_citations.induct) simp_all

lemma findall_citations_rendered:
  assumes d1: "\<forall>x\<in>set d1. isdigit x" "d1 \<noteq> []" and d2: "\<forall>x\<in>set d2. isdigit x" "d2 \<noteq> []"
  shows "findall_citations 0 (''[p'' @ d1 @ '':c'' @ d2 @ '']'') = [(d1, d2)]"
proof -
  have m: "match_citation (CHR ''['' # CHR ''p'' # d1 @ CHR '':'' # CHR ''c'' # d2 @ [CHR '']''])
             = Some ((d1, d2), length d1 + length d2 + 5)"
    using match_citation_rendered [OF d1 d2, of "[]"] by simp
  have "findall_citations (length d1 + length d2 + 5 - 1)
          (CHR ''p'' # d1 @ CHR '':'' # CHR ''c'' # d2 @ [CHR '']'']) = []"
    by (rule findall_citations_skip_all) simp
  then show ?thesis using m by simp
qed

text \<open>
  C6. For a chunk whose page number and chunk id are natural numbers, extracting the
  citations from the rendered citation finds exactly one: the pattern's two groups are the
  decimal renderings of the page number and the chunk id, which denote these two numbers, and
  \<open>parse_response_for_citations\<close> returns that one citation in its form \<open>p<page>:c<chunk_id>\<close>.
\<close>

theorem citation_round_trip:
  assumes "0 \<le> page_number c" and "0 \<le> chunk_id c"
  shows "findall_citations 0 (get_citation c) = [(str_int (page_number c), str_int (chunk_id c))]
     \<and> parse_response_for_citations (get_citation c)
          = [''p'' @ str_int (page_number c) @ '':c'' @ str_int (chunk_id c)]
     \<and> (int (digits_value (str_int (page_number c))),
         int (digits_value (str_int (chunk_id c)))) = (page_number c, chunk_id c)"
proof -
  have p: "str_int (page_number c) = str_nat (nat (page_number c))"
    and i: "str_int (chunk_id c) = str_nat (nat (chunk_id c))"
    using assms by (simp_all add: str_int_def)
  have f: "findall_citations 0 (get_citation c)
             = [(str_int (page_number c), str_int (chunk_id c))]"
    unfolding get_citation_def p i
    by (rule findall_citations_rendered) (simp_all add: str_nat_isdigit str_nat_not_Nil)
  have v: "int (digits_value (str_int (page_number c))) = page_number c"
    "int (digits_value (str_int (chunk_id c))) = chunk_id c"
    using assms unfolding p i by (simp_all add: digits_value_str_nat)
  from f v show ?thesis by (simp add: parse_response_for_citations_def)
qed

theorem citation_round_trip_witness:
  "0 \<le> page_number \<lparr>ctext = ''net revenue'', page_number = 12, chunk_id = 340\<rparr>
   \<and> 0 \<le> chunk_id \<lparr>ctext = ''net revenue'', page_number = 12, chunk_id = 340\<rparr>
   \<and> get_citation \<lparr>ctext = ''net revenue'', page_number = 12, chunk_id = 340\<rparr> = ''[p12:c340]''
   \<and> findall_citations 0 ''[p12:c340]'' = [(''12'', ''340'')]
   \<and> parse_response_for_citations ''[p12:c340]'' = [''p12:c340'']
   \<and> (int (digits_value ''12''), int (digits_value ''340'')) = (12, 340)"
proof -
  let ?c = "\<lparr>ctext = ''net revenue'', page_number = 12, chunk_id = 340\<rparr>"
  have h1: "0 \<le> page_number ?c" and h2: "0 \<le> chunk_id ?c" by simp_all
  have "str_nat 12 = ''12''"
    by (subst str_nat.simps, subst str_nat.simps)
      (simp add: digit_char_def char_of_def bit_Suc_0_iff)
  moreover have "str_nat 340 = ''340''"
    by (subst str_nat.simps, subst str_nat.simps, subst str_nat.simps)
      (simp add: digit_char_def char_of_def bit_Suc_0_iff)
  ultimately have s: "str_int 12 = ''12''" "str_int 340 = ''340''"
    by (simp_all add: str_int_def)
  have g: "get_citation ?c = ''[p12:c340]''" by (simp add: get_citation_def s)
  from citation_round_trip [OF h1 h2] have
    "findall_citations 0 ''[p12:c340]'' = [(''12'', ''340'')]
     \<and> parse_response_for_citations ''[p12:c340]'' = [''p12:c340'']
     \<and> (int (digits_value ''12''), int (digits_value ''340'')) = (12, 340)"
    unfolding g by (simp only: s PDFChunk.simps append.simps)
  with h1 h2 g show ?thesis by blast
qed

section \<open>Refusal detection and the format check\<close>

lemma sublist_dropWhile:
  assumes "p \<noteq> []" and "\<not> P (hd p)"
  shows "sublist p (dropWhile P s) \<longleftrightarrow> sublist p s"
proof (induction s)
  case Nil
  show ?case by simp
next
  case (Cons x xs)
  show ?case
  proof (cases "P x")
    case True
    have "\<not> prefix p (x # xs)"
    proof
      assume "prefix p (x # xs)"
      with assms(1) have "hd p = x" by (cases p) simp_all
      with True assms(2) show False by simp
    qed
    then have "sublist p (x # xs) \<longleftrightarrow> sublist p xs" by (simp add: sublist_Cons_right)
    with Cons True show ?thesis by simp
  next
    case False
    then show ?thesis by simp
  qed
qed

lemma sublist_strip:
  assumes "p \<noteq> []" and "\<not> isspace (hd p)" and "\<not> isspace (last p)"
  shows "sublist p (strip s) \<longleftrightarrow> sublist p s"
proof -
  have r: "rev p \<noteq> []" "\<not> isspace (hd (rev p))"
    using assms by (simp_all add: hd_rev)
  have "sublist p (strip s) \<longleftrightarrow> sublist (rev p) (dropWhile isspace (rev (dropWhile isspace s)))"
    unfolding strip_def using sublist_rev [of "rev p" "dropWhile isspace (rev (dropWhile isspace s))"]
    by simp
  also have "\<dots> \<longleftrightarrow> sublist (rev p) (rev (dropWhile isspace s))"
    using r by (rule sublist_dropWhile)
  also have "\<dots> \<longleftrightarrow> sublist p (dropWhile isspace s)" by simp
  also have "\<dots> \<longleftrightarrow> sublist p s" using assms(1,2) by (rule sublist_dropWhile)
  finally show ?thesis .
qed

lemma sublist_map_iff:
  "sublist p (map f s) \<longleftrightarrow> (\<exists>u v w. s = u @ v @ w \<and> map f v = p)"
proof
  assume "sublist p (map f s)"
  then obtain a b where "map f s = a @ (p @ b)" by (auto simp: sublist_def)
  then have "\<exists>us vs. s = us @ vs \<and> a = map f us \<and> p @ b = map f vs"
    by (simp add: map_eq_append_conv)
  then obtain u vw where s: "s = u @ vw" and vw: "p @ b = map f vw" by blast
  from vw have "\<exists>us vs. vw = us @ vs \<and> p = map f us \<and> b = map f vs"
    by (simp add: append_eq_map_conv)
  then obtain v w where "vw = v @ w" and "map f v = p" by auto
  with s show "\<exists>u v w. s = u @ v @ w \<and> map f v = p" by blast
next
  assume "\<exists>u v w. s = u @ v @ w \<and> map f v = p"
  then obtain u v w where "s = u @ v @ w" and "map f v = p" by blast
  then have "map f s = map f u @ p @ map f w" by simp
  then show "sublist p (map f s)" unfolding sublist_def by blast
qed

lemma not_found_phrases_trimmed:
  assumes "phrase \<in> set not_found_phrases"
  shows "phrase \<noteq> [] \<and> \<not> isspace (hd phrase) \<and> \<not> isspace (last phrase)"
  using assms by (auto simp: not_found_phrases_def isspace_def)

lemma is_not_found_response_iff:
  "is_not_found_response response \<longleftrightarrow>
     (\<exists>phrase\<in>set not_found_phrases. \<exists>u v w. response = u @ v @ w \<and> lower v = phrase)"
proof -
  have "sublist phrase (strip (lower response))
          \<longleftrightarrow> (\<exists>u v w. response = u @ v @ w \<and> lower v = phrase)"
    if "phrase \<in> set not_found_phrases" for phrase
  proof -
    from not_found_phrases_trimmed [OF that]
    have "sublist phrase (strip (lower response)) \<longleftrightarrow> sublist phrase (lower response)"
      by (intro sublist_strip) simp_all
    then show ?thesis by (simp add: lower_def sublist_map_iff)
  qed
  then show ?thesis by (auto simp: is_not_found_response_def str_contains_def)
qed

lemma validate_response_format_fields:
  "has_answer_section (validate_response_format r) = str_contains r ''Answer:''"
  "has_citations_section (validate_response_format r) = str_contains r ''Citations:''"
  "has_evidence_section (validate_response_format r) = str_contains r ''Evidence:''"
  "is_not_found (validate_response_format r) = str_contains r ''Not found in the document''"
  "valid (validate_response_format r) =
     (str_contains r ''Not found in the document''
      \<or> (str_contains r ''Answer:'' \<and> str_contains r ''Citations:''
           \<and> str_contains r ''Evidence:''))"
  by (simp_all add: validate_response_format_def Let_def)

lemma lower_exact_refusal: "lower ''Not found in the document'' = ''not found in the document''"
  by (simp add: lower_def lower_char_def char_of_def bit_Suc_0_iff)

text \<open>
  C5, as the code has it. There are two refusal checks. \<open>is_not_found_response\<close> is true if
  and only if the response contains, without regard to case, one of the four phrases. The
  classification \<open>validate_response_format\<close>, which also gives \<open>valid\<close>, sets \<open>is_not_found\<close> if
  and only if the response contains \<open>Not found in the document\<close> in exactly this case, and
  \<open>valid\<close> if and only if \<open>is_not_found\<close> holds or the three section headings are all there.
  On the exact string \<open>Not found in the document.\<close> all three are true.
\<close>

theorem refusal_classification:
  "(is_not_found_response response \<longleftrightarrow>
      (\<exists>phrase\<in>set not_found_phrases. \<exists>u v w. response = u @ v @ w \<and> lower v = phrase))
   \<and> (is_not_found (validate_response_format response) \<longleftrightarrow>
        (\<exists>u w. response = u @ ''Not found in the document'' @ w))
   \<and> (valid (validate_response_format response) \<longleftrightarrow>
        (is_not_found (validate_response_format response)
         \<or> (has_answer_section (validate_response_format response)
              \<and> has_citations_section (validate_response_format response)
              \<and> has_evidence_section (validate_response_format response))))
   \<and> is_not_found_response ''Not found in the document.''
   \<and> is_not_found (validate_response_format ''Not found in the document.'')
   \<and> valid (validate_response_format ''Not found in the document.'')"
proof -
  have e: "''Not found in the document.'' = [] @ ''Not found in the document'' @ ''.''"
    by simp
  have p: "''not found in the document'' \<in> set not_found_phrases"
    by (simp add: not_found_phrases_def)
  have a: "is_not_found_response ''Not found in the document.''"
    unfolding is_not_found_response_iff using e p lower_exact_refusal by blast
  have b: "is_not_found (validate_response_format ''Not found in the document.'')"
    unfolding validate_response_format_fields str_contains_def sublist_def using e by blast
  have c: "is_not_found (validate_response_format response) \<longleftrightarrow>
        (\<exists>u w. response = u @ ''Not found in the document'' @ w)"
    unfolding validate_response_format_fields str_contains_def sublist_def ..
  have d: "valid (validate_response_format response) \<longleftrightarrow>
        (is_not_found (validate_response_format response)
         \<or> (has_answer_section (validate_response_format response)
              \<and> has_citations_section (validate_response_format response)
              \<and> has_evidence_section (validate_response_format response)))"
    unfolding validate_response_format_fields ..
  have v: "valid (validate_response_format ''Not found in the document.'')"
    using b unfolding validate_response_format_fields by simp
  from is_not_found_response_iff [of response] a b c d v show ?thesis by blast
qed

text \<open>
  C5, as the claim states it, fails for the classification: the response
  \<open>does not contain\<close> is one of the fixed phrases, and \<open>is_not_found_response\<close> accepts it,
  but \<open>validate_response_format\<close> gives neither \<open>is_not_found\<close> nor \<open>valid\<close>.
\<close>

theorem refusal_phrase_not_classified:
  "is_not_found_response ''does not contain''
   \<and> \<not> is_not_found (validate_response_format ''does not contain'')
   \<and> \<not> valid (validate_response_format ''does not contain'')"
proof -
  have l: "lower ''does not contain'' = ''does not contain''"
    by (simp add: lower_def lower_char_def)
  have "''does not contain'' = [] @ ''does not contain'' @ []" by simp
  moreover have "''does not contain'' \<in> set not_found_phrases"
    by (simp add: not_found_phrases_def)
  ultimately have a: "is_not_found_response ''does not contain''"
    unfolding is_not_found_response_iff using l by blast
  have n: "\<not> str_contains ''does not contain'' ''Not found in the document''"
    "\<not> str_contains ''does not contain'' ''Answer:''"
    by (simp_all add: str_contains_def sublist_Cons_right)
  from a n show ?thesis by (simp add: validate_response_format_fields)
qed

section \<open>Query rewriting\<close>

lemma isspace_lower_char: "isspace (lower_char c) = isspace c"
proof -
  have b: "(of_char c :: nat) < 256" by (rule nat_of_char_less_256)
  show ?thesis
  proof (cases "(65 \<le> (of_char c :: nat) \<and> (of_char c :: nat) \<le> 90)
      \<or> (192 \<le> (of_char c :: nat) \<and> (of_char c :: nat) \<le> 222 \<and> (of_char c :: nat) \<noteq> 215)")
    case False
    then have "lower_char c = c" unfolding lower_char_def Let_def by (rule if_not_P)
    then show ?thesis by simp
  next
    case True
    then have l: "lower_char c = char_of ((of_char c :: nat) + 32)"
      unfolding lower_char_def Let_def by (rule if_P)
    from True b have m: "((of_char c :: nat) + 32) mod 256 = of_char c + 32" by auto
    have "\<not> isspace (char_of ((of_char c :: nat) + 32))"
      using True by (auto simp: isspace_def m)
    moreover have "\<not> isspace c" using True by (auto simp: isspace_def)
    ultimately show ?thesis using l by simp
  qed
qed

lemma split_from_lower:
  "split_from (lower cur) (lower s) = map lower (split_from cur s)"
proof (induction s arbitrary: cur)
  case Nil
  show ?case by (simp add: lower_def)
next
  case (Cons c cs)
  have e: "lower [] = []" and a: "lower (cur @ [c]) = lower cur @ [lower_char c]"
    and n: "lower cur = [] \<longleftrightarrow> cur = []"
    by (simp_all add: lower_def)
  have "split_from (lower cur) (lower_char c # lower cs) = map lower (split_from cur (c # cs))"
    using Cons [of "[]"] Cons [of "cur @ [c]"] by (simp add: isspace_lower_char e a n)
  then show ?case by (simp add: lower_def)
qed

lemma split_lower: "split (lower s) = map lower (split s)"
  using split_from_lower [of "[]" s] by (simp add: split_def lower_def)

lemma needs_rewrite_iff:
  "needs_rewrite query \<longleftrightarrow>
     length (split query) < 5 \<or> (\<exists>tok\<in>set (split query). lower tok \<in> set pronouns)"
  by (auto simp: needs_rewrite_def split_lower)

text \<open>
  C7. \<open>_rewrite_query_if_needed\<close> returns the query unchanged, and leaves the generator alone,
  whenever the history is empty, and also whenever the query splits into at least five
  tokens none of which is, in lower case, one of the nine pronouns. So it does anything
  else (calls the generator, returns another string) only when the history is not empty and
  the query has fewer than five tokens or a pronoun among its tokens.
\<close>

theorem rewrite_only_when_triggered:
  "(conversation_history self = [] \<longrightarrow> rewrite_query_if_needed self query w = (query, w))
   \<and> (5 \<le> length (split query) \<and> (\<forall>tok\<in>set (split query). lower tok \<notin> set pronouns)
        \<longrightarrow> rewrite_query_if_needed self query w = (query, w))
   \<and> (rewrite_query_if_needed self query w \<noteq> (query, w)
        \<longrightarrow> conversation_history self \<noteq> []
            \<and> (length (split query) < 5
                 \<or> (\<exists>tok\<in>set (split query). lower tok \<in> set pronouns)))"
proof -
  have a: "rewrite_query_if_needed self query w = (query, w)"
    if "conversation_history self = []"
    using that by (simp add: rewrite_query_if_needed_def)
  have b: "rewrite_query_if_needed self query w = (query, w)"
    if "\<not> (length (split query) < 5
            \<or> (\<exists>tok\<in>set (split query). lower tok \<in> set pronouns))"
    using that unfolding needs_rewrite_iff [symmetric]
    by (simp add: rewrite_query_if_needed_def)
  have c: "conversation_history self \<noteq> []
            \<and> (length (split query) < 5
                 \<or> (\<exists>tok\<in>set (split query). lower tok \<in> set pronouns))"
    if "rewrite_query_if_needed self query w \<noteq> (query, w)"
    using that a b by blast
  have b': "rewrite_query_if_needed self query w = (query, w)"
    if "5 \<le> length (split query) \<and> (\<forall>tok\<in>set (split query). lower tok \<notin> set pronouns)"
  proof (rule b)
    from that have "\<not> length (split query) < 5" by simp
    with that show "\<not> (length (split query) < 5
            \<or> (\<exists>tok\<in>set (split query). lower tok \<in> set pronouns))" by blast
  qed
  from a b' c show ?thesis by blast
qed

theorem rewrite_only_when_triggered_witness:
  "split ''what is the total revenue'' = [''what'', ''is'', ''the'', ''total'', ''revenue'']
   \<and> rewrite_query_if_needed
        \<lparr>retriever = \<lparr>index = None, chunks = []\<rparr>, top_k = 5, debug_mode = True,
          api_key = Some ''key'', fallback_mode = False,
          model = Some (\<lambda>prompt (st::nat). (Inr ''rewritten'', Suc st)),
          conversation_history = [(''who is the ceo'', ''Not found in the document.'')]\<rparr>
        ''what is the total revenue'' \<lparr>gen_state = 0, gen_calls = []\<rparr>
       = (''what is the total revenue'', \<lparr>gen_state = 0, gen_calls = []\<rparr>)
   \<and> rewrite_query_if_needed
        \<lparr>retriever = \<lparr>index = None, chunks = []\<rparr>, top_k = 5, debug_mode = True,
          api_key = Some ''key'', fallback_mode = False,
          model = Some (\<lambda>prompt (st::nat). (Inr ''rewritten'', Suc st)),
          conversation_history = []\<rparr>
        ''and it'' \<lparr>gen_state = 0, gen_calls = []\<rparr>
       = (''and it'', \<lparr>gen_state = 0, gen_calls = []\<rparr>)"
proof -
  have s: "split ''what is the total revenue'' = [''what'', ''is'', ''the'', ''total'', ''revenue'']"
    by (simp add: split_def isspace_def)
  have h1: "5 \<le> length (split ''what is the total revenue'')
    \<and> (\<forall>tok\<in>set (split ''what is the total revenue''). lower tok \<notin> set pronouns)"
    unfolding s by (simp add: lower_def lower_char_def pronouns_def)
  have h2: "conversation_history
        \<lparr>retriever = \<lparr>index = None, chunks = []\<rparr>, top_k = 5, debug_mode = True,
          api_key = Some ''key'', fallback_mode = False,
          model = Some (\<lambda>prompt (st::nat). (Inr ''rewritten'', Suc st)),
          conversation_history = []\<rparr> = []"
    by simp
  from rewrite_only_when_triggered
    [of "\<lparr>retriever = \<lparr>index = None, chunks = []\<rparr>, top_k = 5, debug_mode = True,
          api_key = Some ''key'', fallback_mode = False,
          model = Some (\<lambda>prompt (st::nat). (Inr ''rewritten'', Suc st)),
          conversation_history = [(''who is the ceo'', ''Not found in the document.'')]\<rparr>"
        "''what is the total revenue''" "\<lparr>gen_state = 0, gen_calls = []\<rparr>"]
    rewrite_only_when_triggered
    [of "\<lparr>retriever = \<lparr>index = None, chunks = []\<rparr>, top_k = 5, debug_mode = True,
          api_key = Some ''key'', fallback_mode = False,
          model = Some (\<lambda>prompt (st::nat). (Inr ''rewritten'', Suc st)),
          conversation_history = []\<rparr>"
        "''and it''" "\<lparr>gen_state = 0, gen_calls = []\<rparr>"]
    h1 h2 s
  show ?thesis by blast
qed

section \<open>Retrieval\<close>

lemma retrieve_loop_valid_rows:
  assumes "\<forall>(idx, score)\<in>set rows. 0 \<le> idx \<and> idx < int (length cs)"
  shows "retrieve_loop cs rows results
           = Inr (results @ map (\<lambda>(idx, score). (cs ! nat idx, score)) rows)"
  using assms
proof (induction rows arbitrary: results)
  case Nil
  show ?case by simp
next
  case (Cons row rows)
  obtain idx score where row: "row = (idx, score)" by (cases row)
  with Cons.prems have ok: "0 \<le> idx" "idx < int (length cs)" by simp_all
  from Cons.prems have "\<forall>(idx, score)\<in>set rows. 0 \<le> idx \<and> idx < int (length cs)" by simp
  from Cons.IH [OF this, of "results @ [(cs ! nat idx, score)]"] row ok
  show ?case by (simp add: py_index_def)
qed

text \<open>
  C1 at \<open>top_k = 3\<close> on an index built from the two chunks \<open>c0\<close> and \<open>c1\<close>. A flat FAISS
  index that holds fewer than \<open>k\<close> vectors fills the rows it cannot find with the label
  \<open>-1\<close> and the lowest score, so the search gives three rows, the last with the label
  \<open>-1\<close>. The guard \<open>idx < len(self.chunks)\<close> lets that row through, and
  \<open>self.chunks[-1]\<close> is the last chunk: \<open>retrieve\<close> returns three pairs, \<open>c1\<close> twice.
\<close>

theorem retrieve_top_k_exceeds_stored:
  "(case build_index (\<lambda>cs q k. Inr [(0, s0), (1, s1), (- 1, lowest)]) r [c0, c1] of
      Inl e \<Rightarrow> Inl e
    | Inr r' \<Rightarrow> retrieve r' query 3)
   = Inr [(c0, s0), (c1, s1), (c1, lowest)]"
  by (simp add: build_index_def retrieve_def py_index_def)

section \<open>The agent\<close>

lemma rewrite_fallback:
  "fallback_mode self \<Longrightarrow> rewrite_query_if_needed self query w = (query, w)"
  by (simp add: rewrite_query_if_needed_def)

lemma answer_query_fallback_raises:
  assumes "fallback_mode self" and "retrieve (retriever self) q (top_k self) = Inl e"
  shows "answer_query format_3f self q w = (Inl e, self, w)"
  using assms by (simp add: answer_query_def rewrite_fallback)

lemma answer_query_fallback_returns:
  assumes "fallback_mode self" and "retrieve (retriever self) q (top_k self) = Inr cs"
  shows "answer_query format_3f self q w =
           (Inr (generate_fallback_response format_3f q cs),
            self\<lparr>conversation_history :=
                    conversation_history self @ [(q, generate_fallback_response format_3f q cs)]\<rparr>,
            w)"
  using assms by (simp add: answer_query_def rewrite_fallback Let_def)

lemma init_without_key:
  "fallback_mode (RAGChatAgent_init genai retr None model_name k dbg)"
  "model (RAGChatAgent_init genai retr None model_name k dbg) = None"
  "retriever (RAGChatAgent_init genai retr None model_name k dbg) = retr"
  "top_k (RAGChatAgent_init genai retr None model_name k dbg) = k"
  by (simp_all add: RAGChatAgent_init_def)

text \<open>
  C4, as the code has it. An agent constructed without an API key is in fallback mode and
  has no generator. In fallback mode \<open>answer_query\<close> never calls the generator (the world,
  with the list of the prompts sent, is unchanged). It raises exactly when \<open>retrieve\<close> raises,
  and then passes that exception on; when \<open>retrieve\<close> returns, it returns the fallback
  rendering and appends the turn to the history. For an empty retrieval result the answer is
  the no-relevant-content notice.
\<close>

theorem fallback_answer_query:
  "fallback_mode (RAGChatAgent_init genai retr None model_name k dbg)
   \<and> model (RAGChatAgent_init genai retr None model_name k dbg) = None
   \<and> (fallback_mode self \<longrightarrow>
        snd (snd (answer_query format_3f self q w)) = w
        \<and> (case retrieve (retriever self) q (top_k self) of
              Inl e \<Rightarrow> answer_query format_3f self q w = (Inl e, self, w)
            | Inr cs \<Rightarrow>
                answer_query format_3f self q w =
                  (Inr (generate_fallback_response format_3f q cs),
                   self\<lparr>conversation_history :=
                           conversation_history self
                             @ [(q, generate_fallback_response format_3f q cs)]\<rparr>,
                   w))
        \<and> (retrieve (retriever self) q (top_k self) = Inr [] \<longrightarrow>
              fst (answer_query format_3f self q w)
                = Inr ''[FALLBACK MODE] No relevant content found in the document.''))"
proof -
  have "snd (snd (answer_query format_3f self q w)) = w
        \<and> (case retrieve (retriever self) q (top_k self) of
              Inl e \<Rightarrow> answer_query format_3f self q w = (Inl e, self, w)
            | Inr cs \<Rightarrow>
                answer_query format_3f self q w =
                  (Inr (generate_fallback_response format_3f q cs),
                   self\<lparr>conversation_history :=
                           conversation_history self
                             @ [(q, generate_fallback_response format_3f q cs)]\<rparr>,
                   w))
        \<and> (retrieve (retriever self) q (top_k self) = Inr [] \<longrightarrow>
              fst (answer_query format_3f self q w)
                = Inr ''[FALLBACK MODE] No relevant content found in the document.'')"
    if fb: "fallback_mode self"
  proof (cases "retrieve (retriever self) q (top_k self)")
    case (Inl e)
    with answer_query_fallback_raises [OF fb Inl, of format_3f w] show ?thesis by simp
  next
    case (Inr cs)
    with answer_query_fallback_returns [OF fb Inr, of format_3f w] show ?thesis
      by (simp add: generate_fallback_response_def)
  qed
  then show ?thesis by (simp add: init_without_key)
qed

theorem fallback_answer_query_witness:
  "fallback_mode
     (RAGChatAgent_init (\<lambda>key name. Inl (ExternalError ''no network''))
        \<lparr>index = Some (\<lambda>query k. Inr []),
          chunks = [\<lparr>ctext = ''Revenue grew.'', page_number = 1, chunk_id = 0\<rparr>]\<rparr>
        None ''gemini-1.5-pro'' 5 True :: (int, nat) RAGChatAgent)
   \<and> answer_query (\<lambda>score::int. ''0.000'')
       (RAGChatAgent_init (\<lambda>key name. Inl (ExternalError ''no network''))
          \<lparr>index = Some (\<lambda>query k. Inr []),
            chunks = [\<lparr>ctext = ''Revenue grew.'', page_number = 1, chunk_id = 0\<rparr>]\<rparr>
          None ''gemini-1.5-pro'' 5 True)
       ''What is the population of Mars?'' \<lparr>gen_state = (0::nat), gen_calls = []\<rparr>
     = (Inr ''[FALLBACK MODE] No relevant content found in the document.'',
        (RAGChatAgent_init (\<lambda>key name. Inl (ExternalError ''no network''))
          \<lparr>index = Some (\<lambda>query k. Inr []),
            chunks = [\<lparr>ctext = ''Revenue grew.'', page_number = 1, chunk_id = 0\<rparr>]\<rparr>
          None ''gemini-1.5-pro'' 5 True)
        \<lparr>conversation_history :=
            [(''What is the population of Mars?'',
              ''[FALLBACK MODE] No relevant content found in the document.'')]\<rparr>,
        \<lparr>gen_state = 0, gen_calls = []\<rparr>)"
proof -
  let ?r = "\<lparr>index = Some (\<lambda>query k. Inr []),
            chunks = [\<lparr>ctext = ''Revenue grew.'', page_number = 1, chunk_id = 0\<rparr>]\<rparr>
            :: int VectorRetriever"
  let ?a = "RAGChatAgent_init (\<lambda>key name. Inl (ExternalError ''no network'')) ?r
              None ''gemini-1.5-pro'' 5 True :: (int, nat) RAGChatAgent"
  have fb: "fallback_mode ?a" by (simp add: RAGChatAgent_init_def)
  have re: "retrieve (retriever ?a) ''What is the population of Mars?'' (top_k ?a) = Inr []"
    by (simp add: RAGChatAgent_init_def retrieve_def)
  have h: "conversation_history ?a = []" by (simp add: RAGChatAgent_init_def)
  have g: "generate_fallback_response (\<lambda>score::int. ''0.000'')
             ''What is the population of Mars?'' []
           = ''[FALLBACK MODE] No relevant content found in the document.''"
    by (simp add: generate_fallback_response_def)
  let ?q = "''What is the population of Mars?''"
  let ?w = "\<lparr>gen_state = (0::nat), gen_calls = []\<rparr>"
  from fallback_answer_query
    [of "\<lambda>key name. Inl (ExternalError ''no network'')" ?r "''gemini-1.5-pro''" 5 True ?a
        "\<lambda>score::int. ''0.000''" ?q ?w] fb
  have "case retrieve (retriever ?a) ?q (top_k ?a) of
          Inl e \<Rightarrow> answer_query (\<lambda>score::int. ''0.000'') ?a ?q ?w = (Inl e, ?a, ?w)
        | Inr cs \<Rightarrow>
            answer_query (\<lambda>score::int. ''0.000'') ?a ?q ?w =
              (Inr (generate_fallback_response (\<lambda>score::int. ''0.000'') ?q cs),
               ?a\<lparr>conversation_history :=
                     conversation_history ?a
                       @ [(?q, generate_fallback_response (\<lambda>score::int. ''0.000'') ?q cs)]\<rparr>,
               ?w)"
    by blast
  then have "answer_query (\<lambda>score::int. ''0.000'') ?a ?q ?w =
              (Inr (generate_fallback_response (\<lambda>score::int. ''0.000'') ?q []),
               ?a\<lparr>conversation_history :=
                     conversation_history ?a
                       @ [(?q, generate_fallback_response (\<lambda>score::int. ''0.000'') ?q [])]\<rparr>,
               ?w)"
    by (simp only: re sum.case)
  then have "answer_query (\<lambda>score::int. ''0.000'') ?a ?q ?w =
              (Inr ''[FALLBACK MODE] No relevant content found in the document.'',
               ?a\<lparr>conversation_history :=
                     [(?q, ''[FALLBACK MODE] No relevant content found in the document.'')]\<rparr>,
               ?w)"
    by (simp only: g h append_Nil)
  with fb show ?thesis by blast
qed

text \<open>
  C4, as the claim states it, fails: an agent constructed without an API key over a
  retriever whose index was never built raises RuntimeError from \<open>answer_query\<close>.
\<close>

theorem fallback_answer_query_raises:
  "fst (answer_query (\<lambda>score::int. ''0.000'')
          (RAGChatAgent_init (\<lambda>key name. Inl (ExternalError ''no network''))
             \<lparr>index = None, chunks = []\<rparr> None ''gemini-1.5-pro'' 5 True
             :: (int, nat) RAGChatAgent)
          ''What is the population of Mars?'' \<lparr>gen_state = 0, gen_calls = []\<rparr>)
   = Inl RuntimeError"
  by (simp add: answer_query_def rewrite_query_if_needed_def RAGChatAgent_init_def retrieve_def)

lemma build_grounded_prompt_raises:
  "build_grounded_prompt query retrieved_chunks history = Inl NameError"
  by (simp add: build_grounded_prompt_def grounded_prompt_parts_def Let_def)

text \<open>
  C8 on the code. In generation mode \<open>answer_query\<close> builds the grounded prompt before the
  \<open>try\<close> that calls the generator, and building it raises NameError (the f-string has the
  fields \<open>page\<close> and \<open>chunk_id\<close>, bound nowhere). So whenever retrieval returns, the call
  raises NameError: it never reaches the generator, returns no fallback rendering and
  appends nothing to the history, whatever the generator would have done.
\<close>

theorem generation_mode_answer_query_raises:
  assumes "\<not> fallback_mode self"
    and "retrieve (retriever self) (fst (rewrite_query_if_needed self q w)) (top_k self) = Inr cs"
  shows "answer_query format_3f self q w
           = (Inl NameError, self, snd (rewrite_query_if_needed self q w))"
proof -
  obtain sq w1 where rw: "rewrite_query_if_needed self q w = (sq, w1)"
    by (cases "rewrite_query_if_needed self q w")
  with assms(2) have "retrieve (retriever self) sq (top_k self) = Inr cs" by simp
  with assms(1) rw show ?thesis
    by (simp add: answer_query_def build_grounded_prompt_raises)
qed

theorem generation_mode_answer_query_raises_witness:
  "\<not> fallback_mode
       (RAGChatAgent_init (\<lambda>key name. Inr (\<lambda>prompt (st::nat). (Inl (ExternalError ''quota''), Suc st)))
          \<lparr>index = Some (\<lambda>query k. Inr [(0, 1::int)]),
            chunks = [\<lparr>ctext = ''Revenue grew.'', page_number = 1, chunk_id = 0\<rparr>]\<rparr>
          (Some ''key'') ''gemini-1.5-pro'' 1 True :: (int, nat) RAGChatAgent)
   \<and> answer_query (\<lambda>score::int. ''1.000'')
       (RAGChatAgent_init (\<lambda>key name. Inr (\<lambda>prompt (st::nat). (Inl (ExternalError ''quota''), Suc st)))
          \<lparr>index = Some (\<lambda>query k. Inr [(0, 1::int)]),
            chunks = [\<lparr>ctext = ''Revenue grew.'', page_number = 1, chunk_id = 0\<rparr>]\<rparr>
          (Some ''key'') ''gemini-1.5-pro'' 1 True)
       ''What was the revenue growth this year?'' \<lparr>gen_state = 0, gen_calls = []\<rparr>
     = (Inl NameError,
        RAGChatAgent_init (\<lambda>key name. Inr (\<lambda>prompt (st::nat). (Inl (ExternalError ''quota''), Suc st)))
          \<lparr>index = Some (\<lambda>query k. Inr [(0, 1::int)]),
            chunks = [\<lparr>ctext = ''Revenue grew.'', page_number = 1, chunk_id = 0\<rparr>]\<rparr>
          (Some ''key'') ''gemini-1.5-pro'' 1 True,
        \<lparr>gen_state = 0, gen_calls = []\<rparr>)"
proof -
  let ?a = "RAGChatAgent_init
          (\<lambda>key name. Inr (\<lambda>prompt (st::nat). (Inl (ExternalError ''quota''), Suc st)))
          \<lparr>index = Some (\<lambda>query k. Inr [(0, 1::int)]),
            chunks = [\<lparr>ctext = ''Revenue grew.'', page_number = 1, chunk_id = 0\<rparr>]\<rparr>
          (Some ''key'') ''gemini-1.5-pro'' 1 True :: (int, nat) RAGChatAgent"
  let ?w = "\<lparr>gen_state = (0::nat), gen_calls = []\<rparr>"
  have gm: "\<not> fallback_mode ?a" by (simp add: RAGChatAgent_init_def)
  have h: "conversation_history ?a = []" by (simp add: RAGChatAgent_init_def)
  have rw: "rewrite_query_if_needed ?a ''What was the revenue growth this year?'' ?w
              = (''What was the revenue growth this year?'', ?w)"
    using h by (simp add: rewrite_query_if_needed_def)
  have re: "retrieve (retriever ?a)
              (fst (rewrite_query_if_needed ?a ''What was the revenue growth this year?'' ?w))
              (top_k ?a)
            = Inr [(\<lparr>ctext = ''Revenue grew.'', page_number = 1, chunk_id = 0\<rparr>, 1)]"
    unfolding rw by (simp add: RAGChatAgent_init_def retrieve_def py_index_def)
  from generation_mode_answer_query_raises [OF gm re, of "\<lambda>score::int. ''1.000''"]
  show ?thesis using gm unfolding rw by simp
qed

section \<open>Further properties of the agent and the retriever\<close>

lemma answer_query_keeps_mode:
  "fallback_mode (fst (snd (answer_query format_3f self q w))) = fallback_mode self
   \<and> model (fst (snd (answer_query format_3f self q w))) = model self"
proof -
  obtain sq w1 where rw: "rewrite_query_if_needed self q w = (sq, w1)"
    by (cases "rewrite_query_if_needed self q w")
  show ?thesis
  proof (cases "retrieve (retriever self) sq (top_k self)")
    case (Inl e)
    with rw show ?thesis by (simp add: answer_query_def)
  next
    case (Inr cs)
    with rw show ?thesis
      by (simp add: answer_query_def build_grounded_prompt_raises Let_def)
  qed
qed

lemma run_calls_keeps_mode:
  "fallback_mode (fst (run_calls format_3f calls self w)) = fallback_mode self
   \<and> model (fst (run_calls format_3f calls self w)) = model self"
proof (induction calls arbitrary: self w)
  case Nil
  show ?case by simp
next
  case (Cons c calls)
  show ?case
  proof (cases c)
    case (AnswerQuery q)
    obtain outcome self' w' where a: "answer_query format_3f self q w = (outcome, self', w')"
      by (cases "answer_query format_3f self q w")
    with answer_query_keeps_mode [of format_3f self q w]
    have "fallback_mode self' = fallback_mode self \<and> model self' = model self" by simp
    with Cons [of self' w'] AnswerQuery a show ?thesis by simp
  next
    case ResetHistory
    with Cons [of "reset_history self" w] show ?thesis by (simp add: reset_history_def)
  next
    case GetHistory
    with Cons [of self w] show ?thesis by simp
  qed
qed

text \<open>
  The mode of an agent is fixed at its construction. When the generator cannot be
  initialised, \<open>__init__\<close> sets \<open>fallback_mode\<close> and leaves no model; and no sequence of
  calls of \<open>answer_query\<close>, \<open>reset_history\<close> and \<open>get_history\<close> changes \<open>fallback_mode\<close> or the
  model, whatever the retriever and the generator do.
\<close>

theorem agent_mode_is_permanent:
  "(genai key model_name = Inl e \<longrightarrow>
      fallback_mode (RAGChatAgent_init genai retr (Some key) model_name k dbg)
      \<and> model (RAGChatAgent_init genai retr (Some key) model_name k dbg) = None)
   \<and> fallback_mode (fst (run_calls format_3f calls self w)) = fallback_mode self
   \<and> model (fst (run_calls format_3f calls self w)) = model self"
  using run_calls_keeps_mode [of format_3f calls self w]
  by (simp add: RAGChatAgent_init_def)

theorem agent_mode_is_permanent_witness:
  "(\<lambda>key name. Inl (ExternalError ''bad key'')
      :: py_error + nat generator) ''key'' ''gemini-1.5-pro'' = Inl (ExternalError ''bad key'')
   \<and> fallback_mode
        (fst (run_calls (\<lambda>score::int. ''0.000'')
               [AnswerQuery ''What is the revenue?'', ResetHistory, AnswerQuery ''And now?'']
               (RAGChatAgent_init (\<lambda>key name. Inl (ExternalError ''bad key''))
                  \<lparr>index = None, chunks = []\<rparr> (Some ''key'') ''gemini-1.5-pro'' 5 True
                :: (int, nat) RAGChatAgent)
               \<lparr>gen_state = 0, gen_calls = []\<rparr>))"
proof -
  let ?g = "\<lambda>key name. Inl (ExternalError ''bad key'') :: py_error + nat generator"
  let ?a = "RAGChatAgent_init ?g \<lparr>index = None, chunks = []\<rparr> (Some ''key'')
              ''gemini-1.5-pro'' 5 True :: (int, nat) RAGChatAgent"
  have h: "?g ''key'' ''gemini-1.5-pro'' = Inl (ExternalError ''bad key'')" by simp
  from agent_mode_is_permanent
    [of ?g "''key''" "''gemini-1.5-pro''" "ExternalError ''bad key''"
        "\<lparr>index = None, chunks = []\<rparr>" 5 True "\<lambda>score::int. ''0.000''"
        "[AnswerQuery ''What is the revenue?'', ResetHistory, AnswerQuery ''And now?'']"
        ?a "\<lparr>gen_state = 0, gen_calls = []\<rparr>"] h
  show ?thesis by blast
qed

text \<open>
  \<open>build_grounded_prompt\<close> raises NameError for every query, every retrieval result and every
  history: its f-string reads the names \<open>page\<close> and \<open>chunk_id\<close>, which nothing binds.
\<close>

theorem grounded_prompt_is_never_built:
  "build_grounded_prompt query retrieved_chunks history = Inl NameError"
  by (rule build_grounded_prompt_raises)

text \<open>
  When the index is built and every label the search returns is a position of a stored
  chunk, \<open>retrieve\<close> returns one pair for each row, in the order of the rows: the chunk at
  the label, with the row's score.
\<close>

theorem retrieve_valid_labels:
  assumes "index self = Some search" and "search query k = Inr rows"
    and "\<forall>(idx, score)\<in>set rows. 0 \<le> idx \<and> idx < int (length (chunks self))"
  shows "retrieve self query k = Inr (map (\<lambda>(idx, score). (chunks self ! nat idx, score)) rows)"
  using assms(1,2) retrieve_loop_valid_rows [OF assms(3), of "[]"]
  by (simp add: retrieve_def)

theorem retrieve_valid_labels_witness:
  "retrieve \<lparr>index = Some (\<lambda>query k. Inr [(1, 9::int), (0, 4)]),
             chunks = [\<lparr>ctext = ''Revenue grew.'', page_number = 1, chunk_id = 0\<rparr>,
                       \<lparr>ctext = ''Costs fell.'', page_number = 2, chunk_id = 1\<rparr>]\<rparr>
      ''costs'' 2
   = Inr [(\<lparr>ctext = ''Costs fell.'', page_number = 2, chunk_id = 1\<rparr>, 9),
          (\<lparr>ctext = ''Revenue grew.'', page_number = 1, chunk_id = 0\<rparr>, 4)]"
proof -
  let ?s = "\<lambda>query k. Inr [(1, 9::int), (0, 4)] :: py_error + (int \<times> int) list"
  let ?r = "\<lparr>index = Some ?s,
             chunks = [\<lparr>ctext = ''Revenue grew.'', page_number = 1, chunk_id = 0\<rparr>,
                       \<lparr>ctext = ''Costs fell.'', page_number = 2, chunk_id = 1\<rparr>]\<rparr>"
  have h1: "index ?r = Some ?s" by simp
  have h2: "?s ''costs'' 2 = Inr [(1, 9), (0, 4)]" by simp
  have h3: "\<forall>(idx, score)\<in>set [(1, 9::int), (0::int, 4)].
              0 \<le> idx \<and> idx < int (length (chunks ?r))" by simp
  from retrieve_valid_labels [OF h1 h2 h3] show ?thesis by simp
qed

end
